theory Spec2Isabelle
  imports Complex_Main
begin

section \<open>The ManaBox to MongoDB importer (src/index.js)\<close>

text \<open>
  The importer reads the decoded rows of a ManaBox CSV export, turns every row into an
  inventory record (\<open>readCsv\<close>), walks over the records in slices of \<open>BATCH_SIZE\<close>
  (\<open>processRecords\<close>), asks the Scryfall collection endpoint for the metadata of every
  slice, copies the metadata onto the records and inserts them (\<open>processBatch\<close>), and
  finally saves one summary document (\<open>saveCollection\<close>).

  Modelling decisions, each forced by the source:
  \<^item> A cell of a decoded row is a JavaScript string, or \<open>undefined\<close> when the row is
    shorter than the index read: \<open>string option\<close>.
  \<^item> JavaScript numbers are IEEE doubles. The arithmetic the source performs on them
    (\<open>ToNumber\<close> of a cell, \<open>*\<close>, \<open>+=\<close>, numeric literals) is a parameter of the model,
    the record \<open>js_arith\<close>: every general theorem below holds for any interpretation of
    these operations, the doubles included. Concrete runs are evaluated with
    \<open>exact_arith\<close>, which computes only where doubles compute exactly and yields
    \<open>Unknown\<close> elsewhere; no general theorem is stated about it.
  \<^item> The objects of a batch are mutated in place and pushed by reference onto
    \<open>cards\<close>; the model keeps the batch as a list of objects addressed by position
    and \<open>cards\<close> as a list of positions.
  \<^item> The remote service, the document store and the connection are the environment
    \<open>env\<close>; each of their failures is a branch of the model.
  \<^item> Left out: the decoding of the file into rows (and the \<open>error\<close> handler of the
    read stream), the pause between two batches, the log lines and the timestamp of
    the summary.
\<close>

subsection \<open>JavaScript values and numbers\<close>

type_synonym cell = "string option"

text \<open>\<open>row[i]\<close>: the i-th column, \<open>undefined\<close> beyond the end of the row.\<close>

definition col :: "string list \<Rightarrow> nat \<Rightarrow> cell" where
  "col row i = (if i < length row then Some (row ! i) else None)"

record 'n js_arith =
  to_number :: "cell \<Rightarrow> 'n"
  num_mul :: "'n \<Rightarrow> 'n \<Rightarrow> 'n"
  num_add :: "'n \<Rightarrow> 'n \<Rightarrow> 'n"
  num_lit :: "nat \<Rightarrow> 'n"

subsection \<open>Data model\<close>

text \<open>The three image addresses the source reads from an \<open>image_uris\<close> object of the
  service (its other keys are never read).\<close>

record uris =
  small :: string
  normal :: string
  large :: string

text \<open>\<open>newCard.images\<close>: \<open>front\<close> always, \<open>back\<close> (here \<open>back_face\<close>) only when the source
  assigns it.\<close>

record image_set =
  front :: uris
  back_face :: "uris option"

text \<open>An object of \<open>records\<close>. The first five fields are set by \<open>readCsv\<close>; the others do
  not exist (\<open>None\<close>) until \<open>processBatch\<close> assigns them. \<open>quantity\<close>, \<open>manaboxId\<close> and
  \<open>scryfallId\<close> are the cells themselves, \<open>price\<close> is a number.\<close>

record 'n inv_record =
  foil :: bool
  quantity :: cell
  manaboxId :: cell
  scryfallId :: cell
  price :: 'n
  name :: "string option"
  setCode :: "string option"
  setName :: "string option"
  rarity :: "string option"
  layout :: "string option"
  images :: "image_set option"

text \<open>A face of \<open>card.card_faces\<close>; its \<open>image_uris\<close> may be missing.\<close>

record card_face =
  face_image_uris :: "uris option"

text \<open>A metadata object of \<open>res.data.data\<close>, at the type the service documents: \<open>id\<close>,
  \<open>name\<close>, \<open>set\<close>, \<open>set_name\<close>, \<open>rarity\<close> and \<open>layout\<close> are strings (prefixed \<open>card_\<close>
  here), \<open>image_uris\<close> and \<open>card_faces\<close> may each be missing.\<close>

record metadata =
  card_id :: string
  card_name :: string
  card_set :: string
  card_set_name :: string
  card_rarity :: string
  card_layout :: string
  image_uris :: "uris option"
  card_faces :: "card_face list option"

text \<open>The document of \<open>saveCollection\<close> (\<open>value\<close>, \<open>total\<close>; the timestamp \<open>updated\<close> is
  left out).\<close>

record 'n summary =
  summary_value :: 'n
  summary_total :: nat

text \<open>What a \<open>catch\<close> of the source can receive: a \<open>TypeError\<close> raised by the merge code
  itself, a rejected request, a rejected store operation.\<close>

datatype js_error = TypeError | AxiosError | MongoError

text \<open>The two collections, the connection handle \<open>db\<close> (\<open>True\<close>: connected) and the
  exit status of the process once it has ended.\<close>

record 'n world =
  magicCards :: "'n inv_record list"
  magicCollection :: "'n summary list"
  db :: bool
  exit_code :: "nat option"

text \<open>The module-level counters.\<close>

record 'n totals =
  totalCards :: nat
  totalPrice :: 'n

text \<open>The environment of a run: whether \<open>mongoose.connect\<close> and the two \<open>deleteMany\<close>
  succeed; the answer to the k-th request of the run (\<open>None\<close>: axios rejects, on a
  transport error or a non-success status; otherwise \<open>res.data.data\<close>); whether the
  k-th \<open>insertMany\<close> and the final \<open>save\<close> succeed. A rejected \<open>insertMany\<close> is taken
  to insert nothing.\<close>

record 'n env =
  connect_ok :: bool
  delete_collection_ok :: bool
  delete_cards_ok :: bool
  axios_post :: "nat \<Rightarrow> cell list \<Rightarrow> metadata list option"
  insert_ok :: "nat \<Rightarrow> 'n inv_record list \<Rightarrow> bool"
  save_ok :: "'n summary \<Rightarrow> bool"

text \<open>How a function of the source ends: the process has exited inside it
  (\<open>process.exit\<close>), it threw, or it returned.\<close>

datatype ('w, 'a) outcome = Exited 'w | Threw js_error 'w | Returned 'a 'w

subsection \<open>Constants\<close>

definition BATCH_SIZE :: nat where
  "BATCH_SIZE = 75"

subsection \<open>Slicing the records (the loop header of processRecords)\<close>

text \<open>\<open>xs.slice(a, b)\<close> for \<open>0 \<le> a \<le> b\<close>: the elements at positions \<open>a\<close> up to \<open>b - 1\<close>
  that exist.\<close>

definition slice :: "'a list \<Rightarrow> nat \<Rightarrow> nat \<Rightarrow> 'a list" where
  "slice xs a b = take (b - a) (drop a xs)"

text \<open>The values \<open>batch\<close> takes in
  \<^verbatim>\<open>for (let i = 0; i < records.length; i += BATCH_SIZE) { const batch = records.slice(i, i + BATCH_SIZE); ... }\<close>
  from the loop index \<open>i\<close> on.\<close>

function batches_from :: "nat \<Rightarrow> 'a list \<Rightarrow> 'a list list" where
  "batches_from i records =
     (if i < length records
      then slice records i (i + BATCH_SIZE) # batches_from (i + BATCH_SIZE) records
      else [])"
  by pat_completeness auto
termination
  by (relation "measure (\<lambda>(i, records). length records - i)") (auto simp: BATCH_SIZE_def)

definition batches :: "'a list \<Rightarrow> 'a list list" where
  "batches records = batches_from 0 records"

declare batches_from.simps [simp del]

subsection \<open>exit\<close>

text \<open>\<^verbatim>\<open>if (db) { await db.disconnect(); }  process.exit(1);\<close>\<close>

definition exit :: "'n world \<Rightarrow> 'n world" where
  "exit w = (if db w then w\<lparr>db := False\<rparr> else w)\<lparr>exit_code := Some 1\<rparr>"

subsection \<open>readCsv\<close>

text \<open>The object built from one row.\<close>

definition record_of_row :: "'n js_arith \<Rightarrow> string list \<Rightarrow> 'n inv_record" where
  "record_of_row ar row =
     \<lparr> foil = (if col row 4 = Some ''normal'' then False else True),
       quantity = col row 6,
       manaboxId = col row 7,
       scryfallId = col row 8,
       price = num_mul ar (to_number ar (col row 9)) (num_lit ar 100),
       name = None, setCode = None, setName = None, rarity = None, layout = None,
       images = None \<rparr>"

text \<open>\<^verbatim>\<open>for await (const row of parser) { ...; records.push(record); }\<close> over the decoded
  rows (the header line is already skipped by the parser).\<close>

fun readCsv_loop :: "'n js_arith \<Rightarrow> 'n inv_record list \<Rightarrow> string list list \<Rightarrow> 'n inv_record list" where
  "readCsv_loop ar records [] = records"
| "readCsv_loop ar records (row # rows) = readCsv_loop ar (records @ [record_of_row ar row]) rows"

definition readCsv :: "'n js_arith \<Rightarrow> string list list \<Rightarrow> 'n inv_record list" where
  "readCsv ar rows = readCsv_loop ar [] rows"

subsection \<open>processBatch\<close>

text \<open>\<^verbatim>\<open>for (let record of records) { identifiers.push({ id: record.scryfallId }); }\<close>\<close>

fun identifiers_loop :: "cell list \<Rightarrow> 'n inv_record list \<Rightarrow> cell list" where
  "identifiers_loop identifiers [] = identifiers"
| "identifiers_loop identifiers (record # records) =
     identifiers_loop (identifiers @ [scryfallId record]) records"

definition identifiers_of :: "'n inv_record list \<Rightarrow> cell list" where
  "identifiers_of records = identifiers_loop [] records"

text \<open>\<open>records.find(p)\<close>, as the position of the object found: the first one that
  satisfies \<open>p\<close>, \<open>None\<close> (\<open>undefined\<close>) when there is none.\<close>

primrec find_pos :: "('a \<Rightarrow> bool) \<Rightarrow> 'a list \<Rightarrow> nat option" where
  "find_pos p [] = None"
| "find_pos p (x # xs) = (if p x then Some 0 else map_option Suc (find_pos p xs))"

text \<open>\<open>o => o.scryfallId === card.id\<close>\<close>

definition has_id :: "metadata \<Rightarrow> 'n inv_record \<Rightarrow> bool" where
  "has_id card' o' = (scryfallId o' = Some (card_id card'))"

text \<open>\<open>{ small: u.small, normal: u.normal, large: u.large }\<close>\<close>

definition copy_uris :: "uris \<Rightarrow> uris" where
  "copy_uris u = \<lparr> small = small u, normal = normal u, large = large u \<rparr>"

text \<open>The value assigned to \<open>newCard.images\<close> (lines 118 to 141). Reading a property of
  \<open>undefined\<close> throws a \<open>TypeError\<close>: \<open>card.card_faces[0]\<close> without \<open>card_faces\<close>,
  \<open>card_faces[0].image_uris\<close> of an empty list, \<open>.small\<close> of a missing \<open>image_uris\<close>.\<close>

definition build_images :: "metadata \<Rightarrow> js_error + image_set" where
  "build_images card' =
     (case image_uris card' of
        Some u \<Rightarrow> Inr \<lparr> front = copy_uris u, back_face = None \<rparr>
      | None \<Rightarrow>
          (case card_faces card' of
             None \<Rightarrow> Inl TypeError
           | Some faces \<Rightarrow>
               (case faces of
                  [] \<Rightarrow> Inl TypeError
                | f0 # _ \<Rightarrow>
                    (case face_image_uris f0 of
                       None \<Rightarrow> Inl TypeError
                     | Some u0 \<Rightarrow>
                         if length faces > 1
                         then (case face_image_uris (faces ! 1) of
                                 None \<Rightarrow> Inl TypeError
                               | Some u1 \<Rightarrow> Inr \<lparr> front = copy_uris u0, back_face = Some (copy_uris u1) \<rparr>)
                         else Inr \<lparr> front = copy_uris u0, back_face = None \<rparr>))))"

text \<open>The state of the loop over \<open>res.data.data\<close>: the objects of the batch (mutated in
  place), the positions of the objects pushed onto \<open>cards\<close>, and \<open>totalPrice\<close>.\<close>

record 'n merge_state =
  objs :: "'n inv_record list"
  cards :: "nat list"
  running_price :: 'n

text \<open>\<open>newCard.price * newCard.quantity\<close>: the quantity is a cell, converted by \<open>*\<close>.\<close>

definition line_value :: "'n js_arith \<Rightarrow> 'n inv_record \<Rightarrow> 'n" where
  "line_value ar o' = num_mul ar (price o') (to_number ar (quantity o'))"

text \<open>One iteration (lines 111 to 142). \<open>newCard.name = ...\<close> throws when \<open>find\<close> returned
  \<open>undefined\<close>.\<close>

definition merge_card :: "'n js_arith \<Rightarrow> metadata \<Rightarrow> 'n merge_state \<Rightarrow> js_error + 'n merge_state" where
  "merge_card ar card' st =
     (case find_pos (has_id card') (objs st) of
        None \<Rightarrow> Inl TypeError
      | Some i \<Rightarrow>
          (let newCard = (objs st ! i)
                 \<lparr> name := Some (card_name card'),
                   setCode := Some (card_set card'),
                   setName := Some (card_set_name card'),
                   rarity := Some (card_rarity card'),
                   layout := Some (card_layout card') \<rparr>;
               tp = num_add ar (running_price st) (line_value ar newCard)
           in case build_images card' of
                Inl e \<Rightarrow> Inl e
              | Inr im \<Rightarrow>
                  Inr \<lparr> objs = (objs st)[i := newCard\<lparr>images := Some im\<rparr>],
                        cards = cards st @ [i],
                        running_price = tp \<rparr>))"

text \<open>\<^verbatim>\<open>for (let card of res.data.data) { ... }\<close>\<close>

fun merge_loop :: "'n js_arith \<Rightarrow> metadata list \<Rightarrow> 'n merge_state \<Rightarrow> js_error + 'n merge_state" where
  "merge_loop ar [] st = Inr st"
| "merge_loop ar (card' # data) st =
     (case merge_card ar card' st of Inl e \<Rightarrow> Inl e | Inr st' \<Rightarrow> merge_loop ar data st')"

text \<open>The loop run on a batch: the argument of \<open>saveCards(cards)\<close>, that is the objects
  pushed onto \<open>cards\<close> as they are when the loop has ended, and the new \<open>totalPrice\<close>.\<close>

definition merge_batch ::
  "'n js_arith \<Rightarrow> 'n inv_record list \<Rightarrow> metadata list \<Rightarrow> 'n \<Rightarrow> js_error + ('n inv_record list \<times> 'n)" where
  "merge_batch ar records data tp =
     (case merge_loop ar data \<lparr> objs = records, cards = [], running_price = tp \<rparr> of
        Inl e \<Rightarrow> Inl e
      | Inr st \<Rightarrow> Inr (map (\<lambda>i. objs st ! i) (cards st), running_price st))"

text \<open>The body of the \<open>try\<close>, for the k-th batch of the run: the documents inserted, the
  new \<open>totalPrice\<close> and the value returned, \<open>records.length\<close>.\<close>

definition try_batch ::
  "'n js_arith \<Rightarrow> 'n env \<Rightarrow> nat \<Rightarrow> 'n inv_record list \<Rightarrow> 'n \<Rightarrow>
   js_error + ('n inv_record list \<times> 'n \<times> nat)" where
  "try_batch ar env k records tp =
     (case axios_post env k (identifiers_of records) of
        None \<Rightarrow> Inl AxiosError
      | Some data \<Rightarrow>
          (case merge_batch ar records data tp of
             Inl e \<Rightarrow> Inl e
           | Inr (docs, tp') \<Rightarrow>
               if insert_ok env k docs then Inr (docs, tp', length records)
               else Inl MongoError))"

text \<open>\<open>processBatch\<close>: whatever the \<open>try\<close> throws ends the process in \<open>exit\<close>.\<close>

definition processBatch ::
  "'n js_arith \<Rightarrow> 'n env \<Rightarrow> nat \<Rightarrow> 'n inv_record list \<Rightarrow> 'n world \<Rightarrow> 'n \<Rightarrow>
   ('n world, nat \<times> 'n) outcome" where
  "processBatch ar env k records w tp =
     (case try_batch ar env k records tp of
        Inl e \<Rightarrow> Exited (exit w)
      | Inr (docs, tp', n) \<Rightarrow> Returned (n, tp') (w\<lparr>magicCards := magicCards w @ docs\<rparr>))"

subsection \<open>saveCollection, processRecords\<close>

definition saveCollection :: "'n env \<Rightarrow> 'n world \<Rightarrow> 'n totals \<Rightarrow> ('n world, unit) outcome" where
  "saveCollection env w t =
     (let collection = \<lparr> summary_value = totalPrice t, summary_total = totalCards t \<rparr>
      in if save_ok env collection
         then Returned () (w\<lparr>magicCollection := magicCollection w @ [collection]\<rparr>)
         else Threw MongoError w)"

text \<open>The loop of \<open>processRecords\<close> from index \<open>i\<close> on. The slices share their objects
  with \<open>records\<close>, but no two slices share a position, so a later slice is not affected
  by the merge of an earlier one. The pause between two batches is left out.\<close>

function processRecords_loop ::
  "'n js_arith \<Rightarrow> 'n env \<Rightarrow> nat \<Rightarrow> 'n inv_record list \<Rightarrow> 'n world \<Rightarrow> 'n totals \<Rightarrow>
   ('n world, 'n totals) outcome" where
  "processRecords_loop ar env i records w t =
     (if i < length records
      then (case processBatch ar env (i div BATCH_SIZE) (slice records i (i + BATCH_SIZE)) w (totalPrice t) of
              Exited w' \<Rightarrow> Exited w'
            | Threw e w' \<Rightarrow> Threw e w'
            | Returned (n, tp') w' \<Rightarrow>
                processRecords_loop ar env (i + BATCH_SIZE) records w'
                  \<lparr> totalCards = totalCards t + n, totalPrice = tp' \<rparr>)
      else Returned t w)"
  by pat_completeness auto
termination
  by (relation "measure (\<lambda>(ar, env, i, records, w, t). length records - i)")
     (auto simp: BATCH_SIZE_def)

declare processRecords_loop.simps [simp del]

definition processRecords ::
  "'n js_arith \<Rightarrow> 'n env \<Rightarrow> 'n inv_record list \<Rightarrow> 'n world \<Rightarrow> 'n totals \<Rightarrow> ('n world, unit) outcome" where
  "processRecords ar env records w t =
     (case processRecords_loop ar env 0 records w t of
        Exited w' \<Rightarrow> Exited w'
      | Threw e w' \<Rightarrow> Threw e w'
      | Returned t' w' \<Rightarrow> saveCollection env w' t')"

subsection \<open>The Driver as the design words it\<close>

text \<open>The design (Pipeline Driver) words the loop over a sequence of batches: for each
  batch in Batcher order, run the batch; on a failure stop; otherwise add to the totals
  and go on to the next batch. \<open>spec_driver\<close> follows these words on a given list of
  batches, \<open>k\<close> being the number of the request of the first of them. It is compared
  below with \<open>processRecords_loop\<close>, which is the source's loop.\<close>

fun spec_driver ::
  "'n js_arith \<Rightarrow> 'n env \<Rightarrow> nat \<Rightarrow> 'n inv_record list list \<Rightarrow> 'n world \<Rightarrow> 'n totals \<Rightarrow>
   ('n world, 'n totals) outcome" where
  "spec_driver ar env k [] w t = Returned t w"
| "spec_driver ar env k (batch # rest) w t =
     (case processBatch ar env k batch w (totalPrice t) of
        Exited w' \<Rightarrow> Exited w'
      | Threw e w' \<Rightarrow> Threw e w'
      | Returned (n, tp') w' \<Rightarrow>
          spec_driver ar env (Suc k) rest w' \<lparr> totalCards = totalCards t + n, totalPrice = tp' \<rparr>)"

subsection \<open>connectToDb and the main function\<close>

definition connectToDb :: "'n env \<Rightarrow> 'n world \<Rightarrow> ('n world, unit) outcome" where
  "connectToDb env w =
     (if \<not> connect_ok env then Threw MongoError w
      else let w1 = w\<lparr>db := True\<rparr> in
        if \<not> delete_collection_ok env then Threw MongoError w1
        else let w2 = w1\<lparr>magicCollection := []\<rparr> in
          if \<not> delete_cards_ok env then Threw MongoError w2
          else Returned () (w2\<lparr>magicCards := []\<rparr>))"

text \<open>The state a run starts in: the store as earlier runs left it, \<open>db = null\<close>.\<close>

definition initial_world :: "'n inv_record list \<Rightarrow> 'n summary list \<Rightarrow> 'n world" where
  "initial_world old_cards old_collection =
     \<lparr> magicCards = old_cards, magicCollection = old_collection, db = False, exit_code = None \<rparr>"

text \<open>The main function, on the decoded rows of the file: the state the process ends
  in. A run that reaches the end of the script exits with status 0.\<close>

definition main ::
  "'n js_arith \<Rightarrow> 'n env \<Rightarrow> string list list \<Rightarrow> 'n inv_record list \<Rightarrow> 'n summary list \<Rightarrow> 'n world" where
  "main ar env rows old_cards old_collection =
     (case connectToDb env (initial_world old_cards old_collection) of
        Exited w \<Rightarrow> w
      | Threw e w \<Rightarrow> exit w
      | Returned u w1 \<Rightarrow>
          (case processRecords ar env (readCsv ar rows) w1
                  \<lparr> totalCards = 0, totalPrice = num_lit ar 0 \<rparr> of
             Exited w \<Rightarrow> w
           | Threw e w \<Rightarrow> exit w
           | Returned u' w2 \<Rightarrow>
               (if db w2 then w2\<lparr>db := False\<rparr> else w2)\<lparr>exit_code := Some 0\<rparr>))"

subsection \<open>Exact arithmetic for concrete runs\<close>

text \<open>
  An interpretation of \<open>js_arith\<close> that computes only where doubles compute exactly, and
  says so where they do not. A value is \<open>NaN\<close>, a rational that is a double (\<open>Num\<close>), or
  \<open>Unknown\<close>: a number this interpretation does not determine. Whenever it yields \<open>NaN\<close>
  or \<open>Num r\<close>, JavaScript yields that value:
  \<^item> \<open>ToNumber\<close> of \<open>undefined\<close> is \<open>NaN\<close>; of the empty string, 0; of an unsigned
    decimal numeral (digits, optionally a point and digits, or a point and digits), its
    value when that is a double; of a string of ASCII letters other than \<open>Infinity\<close>,
    \<open>NaN\<close>, since no numeric literal consists of letters only. Every other string
    (signs, exponents, hexadecimal forms, \<open>Infinity\<close>, blanks, decimals that are not
    doubles such as 19.99) is \<open>Unknown\<close>.
  \<^item> A product or sum of two doubles is their exact product or sum when that is a
    double again (the rounding of IEEE arithmetic then changes nothing), and \<open>Unknown\<close>
    otherwise; with a \<open>NaN\<close> operand it is \<open>NaN\<close>.
  No value below is negative, so the two zeros of IEEE arithmetic do not arise.
\<close>

datatype jsnum = NaN | Num rat | Unknown

text \<open>\<open>q\<close> is a power of two, at most \<open>2 ^ n\<close>.\<close>

fun pow2_upto :: "nat \<Rightarrow> int \<Rightarrow> bool" where
  "pow2_upto 0 q = (q = 1)"
| "pow2_upto (Suc n) q =
     (if q = 1 then True else if q mod 2 = 0 then pow2_upto n (q div 2) else False)"

text \<open>A sufficient test for a rational to be a double: in lowest terms, a numerator
  below \<open>2 ^ 53\<close> in absolute value over a power of two that is at most \<open>2 ^ 1074\<close>.\<close>

definition is_double :: "rat \<Rightarrow> bool" where
  "is_double r = (case quotient_of r of (p, q) \<Rightarrow> \<bar>p\<bar> < 2 ^ 53 \<and> pow2_upto 1074 q)"

definition num_of :: "rat \<Rightarrow> jsnum" where
  "num_of r = (if is_double r then Num r else Unknown)"

definition digit_of :: "char \<Rightarrow> nat option" where
  "digit_of c = (let n = (of_char c :: nat) in if 48 \<le> n \<and> n \<le> 57 then Some (n - 48) else None)"

definition is_letter :: "char \<Rightarrow> bool" where
  "is_letter c = (let n = (of_char c :: nat) in (65 \<le> n \<and> n \<le> 90) \<or> (97 \<le> n \<and> n \<le> 122))"

fun digits_val :: "nat \<Rightarrow> string \<Rightarrow> nat option" where
  "digits_val acc [] = Some acc"
| "digits_val acc (c # cs) =
     (case digit_of c of None \<Rightarrow> None | Some d \<Rightarrow> digits_val (10 * acc + d) cs)"

text \<open>The value of an unsigned decimal numeral, \<open>None\<close> for any other string.\<close>

definition decimal_value :: "string \<Rightarrow> rat option" where
  "decimal_value s =
     (let ip = takeWhile (\<lambda>c. c \<noteq> CHR ''.'') s;
          rest = dropWhile (\<lambda>c. c \<noteq> CHR ''.'') s;
          fp = (if rest = [] then [] else tl rest)
      in if ip = [] \<and> fp = [] then None
         else (case (digits_val 0 ip, digits_val 0 fp) of
                 (Some a, Some b) \<Rightarrow> Some (of_nat a + of_nat b / 10 ^ length fp)
               | _ \<Rightarrow> None))"

definition parse_decimal :: "string \<Rightarrow> jsnum" where
  "parse_decimal s =
     (if s = [] then Num 0
      else (case decimal_value s of
              Some r \<Rightarrow> num_of r
            | None \<Rightarrow> if list_all is_letter s \<and> s \<noteq> ''Infinity'' then NaN else Unknown))"

fun jsnum_mul :: "jsnum \<Rightarrow> jsnum \<Rightarrow> jsnum" where
  "jsnum_mul NaN _ = NaN"
| "jsnum_mul _ NaN = NaN"
| "jsnum_mul (Num a) (Num b) = num_of (a * b)"
| "jsnum_mul _ _ = Unknown"

fun jsnum_add :: "jsnum \<Rightarrow> jsnum \<Rightarrow> jsnum" where
  "jsnum_add NaN _ = NaN"
| "jsnum_add _ NaN = NaN"
| "jsnum_add (Num a) (Num b) = num_of (a + b)"
| "jsnum_add _ _ = Unknown"

definition exact_arith :: "jsnum js_arith" where
  "exact_arith =
     \<lparr> to_number = (\<lambda>c. case c of None \<Rightarrow> NaN | Some s \<Rightarrow> parse_decimal s),
       num_mul = jsnum_mul,
       num_add = jsnum_add,
       num_lit = (\<lambda>n. num_of (of_nat n)) \<rparr>"

subsection \<open>Predicates used in the statements\<close>

text \<open>All the fields \<open>processBatch\<close> adds are present.\<close>

definition enriched :: "'n inv_record \<Rightarrow> bool" where
  "enriched d \<longleftrightarrow>
     name d \<noteq> None \<and> setCode d \<noteq> None \<and> setName d \<noteq> None \<and> rarity d \<noteq> None \<and>
     layout d \<noteq> None \<and> images d \<noteq> None"

text \<open>The fields \<open>readCsv\<close> sets, which \<open>processBatch\<close> never assigns.\<close>

definition csv_part :: "'n inv_record \<Rightarrow> bool \<times> cell \<times> cell \<times> cell \<times> 'n" where
  "csv_part r = (foil r, quantity r, manaboxId r, scryfallId r, price r)"

text \<open>The object \<open>r\<close> after the assignments of one iteration for the metadata \<open>c\<close>, with
  \<open>im\<close> the value of \<open>images\<close>.\<close>

definition merged :: "metadata \<Rightarrow> image_set \<Rightarrow> 'n inv_record \<Rightarrow> 'n inv_record" where
  "merged c im r =
     r\<lparr> name := Some (card_name c), setCode := Some (card_set c),
        setName := Some (card_set_name c), rarity := Some (card_rarity c),
        layout := Some (card_layout c), images := Some im \<rparr>"

text \<open>The state of the store, the connection and the process in an outcome.\<close>

fun world_of :: "('w, 'a) outcome \<Rightarrow> 'w" where
  "world_of (Exited w) = w"
| "world_of (Threw e w) = w"
| "world_of (Returned a w) = w"

text \<open>The state after \<open>connectToDb\<close> has succeeded, and the counters as the module
  initialises them.\<close>

definition connected_world :: "'n world" where
  "connected_world = \<lparr> magicCards = [], magicCollection = [], db = True, exit_code = None \<rparr>"

definition zero_totals :: "'n js_arith \<Rightarrow> 'n totals" where
  "zero_totals ar = \<lparr> totalCards = 0, totalPrice = num_lit ar 0 \<rparr>"

subsection \<open>Concrete inputs\<close>

text \<open>Rows of a ManaBox export (name, set code, set name, collector number, foil,
  rarity, quantity, ManaBox id, Scryfall id, purchase price) and metadata objects as the
  service returns them. The prices are dyadic, so that doubles compute on them exactly.\<close>

definition bolt_row :: "string list" where
  "bolt_row = [''Lightning Bolt'', ''M10'', ''Magic 2010'', ''146'', ''normal'', ''common'',
               ''2'', ''mb-1'', ''sf-bolt'', ''0.5'']"

definition delver_row :: "string list" where
  "delver_row = [''Delver of Secrets'', ''ISD'', ''Innistrad'', ''51'', ''foil'', ''common'',
                 ''1'', ''mb-2'', ''sf-delver'', ''1.25'']"

definition uris_of :: "string \<Rightarrow> uris" where
  "uris_of s = \<lparr> small = s @ ''/small.jpg'', normal = s @ ''/normal.jpg'', large = s @ ''/large.jpg'' \<rparr>"

definition bolt_card :: metadata where
  "bolt_card =
     \<lparr> card_id = ''sf-bolt'', card_name = ''Lightning Bolt'', card_set = ''m10'',
       card_set_name = ''Magic 2010'', card_rarity = ''common'', card_layout = ''normal'',
       image_uris = Some (uris_of ''bolt''), card_faces = None \<rparr>"

definition delver_card :: metadata where
  "delver_card =
     \<lparr> card_id = ''sf-delver'', card_name = ''Delver of Secrets // Insectile Aberration'',
       card_set = ''isd'', card_set_name = ''Innistrad'', card_rarity = ''common'',
       card_layout = ''transform'', image_uris = None,
       card_faces = Some [\<lparr> face_image_uris = Some (uris_of ''delver'') \<rparr>,
                          \<lparr> face_image_uris = Some (uris_of ''aberration'') \<rparr>] \<rparr>"

text \<open>The same card with the second face left out.\<close>

definition one_face_card :: metadata where
  "one_face_card = delver_card\<lparr> card_faces := Some [\<lparr> face_image_uris = Some (uris_of ''delver'') \<rparr>] \<rparr>"

text \<open>An environment in which the store never fails and the k-th request is answered
  by \<open>answers k\<close>.\<close>

definition env_of :: "(nat \<Rightarrow> metadata list option) \<Rightarrow> jsnum env" where
  "env_of answers =
     \<lparr> connect_ok = True, delete_collection_ok = True, delete_cards_ok = True,
       axios_post = (\<lambda>k identifiers. answers k),
       insert_ok = (\<lambda>k docs. True),
       save_ok = (\<lambda>collection. True) \<rparr>"

text \<open>A second row for the card of \<open>bolt_row\<close> (a foil copy): two records with one
  Scryfall id.\<close>

definition bolt_foil_row :: "string list" where
  "bolt_foil_row = [''Lightning Bolt'', ''M10'', ''Magic 2010'', ''146'', ''foil'', ''common'',
               ''1'', ''mb-3'', ''sf-bolt'', ''2.5'']"

definition two_records :: "jsnum inv_record list" where
  "two_records = readCsv exact_arith [bolt_row, delver_row]"

definition duplicate_records :: "jsnum inv_record list" where
  "duplicate_records = readCsv exact_arith [bolt_row, bolt_foil_row]"

text \<open>The state in which the loop over \<open>res.data.data\<close> starts.\<close>

definition start_state :: "'n inv_record list \<Rightarrow> 'n \<Rightarrow> 'n merge_state" where
  "start_state records tp = \<lparr> objs = records, cards = [], running_price = tp \<rparr>"

text \<open>A row whose price has three decimals (0.125 and 12.5 are doubles), and a row
  whose quantity and price are not numbers.\<close>

definition cheap_row :: "string list" where
  "cheap_row = [''Island'', ''M10'', ''Magic 2010'', ''234'', ''normal'', ''common'',
                ''4'', ''mb-4'', ''sf-island'', ''0.125'']"

definition bad_row :: "string list" where
  "bad_row = [''Lightning Bolt'', ''M10'', ''Magic 2010'', ''146'', ''normal'', ''common'',
              ''lots'', ''mb-1'', ''sf-bolt'', ''cheap'']"

text \<open>Whole runs on an empty store: of the two rows, every request answered by \<open>data\<close>;
  of eighty rows of one card (two batches, 75 and 5 records).\<close>

definition two_rows_run :: "metadata list \<Rightarrow> jsnum world" where
  "two_rows_run data = main exact_arith (env_of (\<lambda>k. Some data)) [bolt_row, delver_row] [] []"

definition eighty_rows_run :: "(nat \<Rightarrow> metadata list option) \<Rightarrow> jsnum world" where
  "eighty_rows_run answers = main exact_arith (env_of answers) (replicate 80 bolt_row) [] []"

text \<open>A hundred and sixty records of one card: three batches.\<close>

definition many_records :: "jsnum inv_record list" where
  "many_records = readCsv exact_arith (replicate 160 bolt_row)"

section \<open>Properties\<close>

subsection \<open>The loops as maps, and \<open>find\<close>\<close>

lemma readCsv_loop_map: "readCsv_loop ar records rows = records @ map (record_of_row ar) rows"
  by (induction rows arbitrary: records) simp_all

lemma readCsv_map: "readCsv ar rows = map (record_of_row ar) rows"
  by (simp add: readCsv_def readCsv_loop_map)

lemma identifiers_loop_map:
  "identifiers_loop identifiers records = identifiers @ map scryfallId records"
  by (induction records arbitrary: identifiers) simp_all

lemma identifiers_of_map: "identifiers_of records = map scryfallId records"
  by (simp add: identifiers_of_def identifiers_loop_map)

lemma find_pos_Some:
  "find_pos p xs = Some i \<Longrightarrow> i < length xs \<and> p (xs ! i) \<and> (\<forall>j<i. \<not> p (xs ! j))"
proof (induction xs arbitrary: i)
  case Nil
  then show ?case by simp
next
  case (Cons x xs)
  show ?case
  proof (cases "p x")
    case True
    with Cons.prems show ?thesis by simp
  next
    case False
    with Cons.prems obtain i' where i': "find_pos p xs = Some i'" "i = Suc i'"
      by auto
    from Cons.IH [OF i'(1)] False i'(2) show ?thesis
      by (auto simp: less_Suc_eq_0_disj)
  qed
qed

lemma find_pos_None: "find_pos p xs = None \<longleftrightarrow> (\<forall>x\<in>set xs. \<not> p x)"
  by (induction xs) auto

lemma find_pos_first:
  "i < length xs \<Longrightarrow> p (xs ! i) \<Longrightarrow> \<forall>j<i. \<not> p (xs ! j) \<Longrightarrow> find_pos p xs = Some i"
proof (induction xs arbitrary: i)
  case Nil
  then show ?case by simp
next
  case (Cons x xs)
  show ?case
  proof (cases i)
    case 0
    with Cons.prems show ?thesis by simp
  next
    case (Suc i')
    with Cons.prems have "\<not> p x" by auto
    moreover from Suc Cons.prems have "find_pos p xs = Some i'"
      by (intro Cons.IH) auto
    ultimately show ?thesis using Suc by simp
  qed
qed

lemma find_pos_map: "find_pos p (map f xs) = find_pos (\<lambda>x. p (f x)) xs"
  by (induction xs) simp_all

lemma find_pos_has_id:
  "find_pos (has_id c) xs = find_pos (\<lambda>s. s = Some (card_id c)) (map scryfallId xs)"
  by (simp add: find_pos_map has_id_def [abs_def])

lemma copy_uris_id: "copy_uris u = u"
  by (simp add: copy_uris_def)

lemma csv_part_merged: "csv_part (merged c im r) = csv_part r"
  by (simp add: csv_part_def merged_def)

lemma enriched_merged: "enriched (merged c im r)"
  by (simp add: enriched_def merged_def)

lemma line_value_csv: "csv_part a = csv_part b \<Longrightarrow> line_value ar a = line_value ar b"
  by (simp add: csv_part_def line_value_def)

lemma scryfallId_csv: "map csv_part xs = map csv_part ys \<Longrightarrow> map scryfallId xs = map scryfallId ys"
proof -
  assume "map csv_part xs = map csv_part ys"
  then have "map (\<lambda>t. fst (snd (snd (snd t)))) (map csv_part xs) = map (\<lambda>t. fst (snd (snd (snd t)))) (map csv_part ys)"
    by simp
  then show ?thesis by (simp add: csv_part_def comp_def)
qed

lemma find_pos_csv:
  "map csv_part xs = map csv_part ys \<Longrightarrow> find_pos (has_id c) xs = find_pos (has_id c) ys"
  using scryfallId_csv [of xs ys] by (simp add: find_pos_has_id)

lemma merge_card_Inr:
  "merge_card ar c st = Inr st' \<longleftrightarrow>
   (\<exists>i im. find_pos (has_id c) (objs st) = Some i \<and> build_images c = Inr im \<and>
      st' = \<lparr> objs = (objs st)[i := merged c im (objs st ! i)],
              cards = cards st @ [i],
              running_price = num_add ar (running_price st) (line_value ar (objs st ! i)) \<rparr>)"
  by (auto simp: merge_card_def merged_def line_value_def Let_def split: option.splits sum.splits)

lemma merge_card_csv:
  assumes "merge_card ar c st = Inr st'"
  shows "map csv_part (objs st') = map csv_part (objs st)"
proof -
  from assms obtain i im where i: "find_pos (has_id c) (objs st) = Some i"
    and st': "objs st' = (objs st)[i := merged c im (objs st ! i)]"
    by (auto simp: merge_card_Inr)
  from find_pos_Some [OF i] have "i < length (objs st)" by simp
  then show ?thesis
    by (simp add: st' map_update csv_part_merged list_update_same_conv)
qed

lemma merge_loop_Inr:
  "merge_loop ar data st = Inr st' \<Longrightarrow>
   map csv_part (objs st') = map csv_part (objs st) \<and>
   cards st' = cards st @ map (\<lambda>c. the (find_pos (has_id c) (objs st))) data \<and>
   (\<forall>c\<in>set data. find_pos (has_id c) (objs st) \<noteq> None \<and> (\<exists>im. build_images c = Inr im)) \<and>
   running_price st' =
     foldl (\<lambda>t c. num_add ar t (line_value ar (objs st ! the (find_pos (has_id c) (objs st)))))
       (running_price st) data"
proof (induction data arbitrary: st)
  case Nil
  then show ?case by simp
next
  case (Cons c data)
  from Cons.prems obtain st1 where c: "merge_card ar c st = Inr st1"
    and rest: "merge_loop ar data st1 = Inr st'"
    by (auto split: sum.splits)
  from c obtain i im where i: "find_pos (has_id c) (objs st) = Some i"
    and im: "build_images c = Inr im"
    and cards1: "cards st1 = cards st @ [i]"
    and price1: "running_price st1 = num_add ar (running_price st) (line_value ar (objs st ! i))"
    by (auto simp: merge_card_Inr)
  have csv1: "map csv_part (objs st1) = map csv_part (objs st)"
    using c by (rule merge_card_csv)
  have pos1: "find_pos (has_id d) (objs st1) = find_pos (has_id d) (objs st)" for d
    using csv1 by (rule find_pos_csv)
  have val1: "line_value ar (objs st1 ! the (find_pos (has_id d) (objs st))) =
              line_value ar (objs st ! the (find_pos (has_id d) (objs st)))"
    if "find_pos (has_id d) (objs st) \<noteq> None" for d
  proof -
    from that obtain k where k: "find_pos (has_id d) (objs st) = Some k" by auto
    from find_pos_Some [OF k] have lt: "k < length (objs st)" by simp
    have len1: "length (objs st1) = length (objs st)"
      using csv1 by (rule map_eq_imp_length_eq)
    have "csv_part (objs st1 ! k) = map csv_part (objs st1) ! k"
      using lt len1 by simp
    also have "\<dots> = map csv_part (objs st) ! k"
      by (simp only: csv1)
    also have "\<dots> = csv_part (objs st ! k)"
      using lt by simp
    finally have "csv_part (objs st1 ! k) = csv_part (objs st ! k)" .
    then have "line_value ar (objs st1 ! k) = line_value ar (objs st ! k)"
      by (rule line_value_csv)
    then show ?thesis using k by simp
  qed
  note IH = Cons.IH [OF rest]
  have found: "\<forall>d\<in>set data. find_pos (has_id d) (objs st) \<noteq> None"
    using IH by (simp add: pos1)
  have "foldl (\<lambda>t d. num_add ar t (line_value ar (objs st1 ! the (find_pos (has_id d) (objs st1))))) a data =
        foldl (\<lambda>t d. num_add ar t (line_value ar (objs st ! the (find_pos (has_id d) (objs st))))) a data" for a
    using found
  proof (induction data arbitrary: a)
    case Nil
    then show ?case by simp
  next
    case (Cons d ds)
    then show ?case by (simp add: pos1 val1)
  qed
  note fold_eq = this
  have 1: "map csv_part (objs st') = map csv_part (objs st)"
    using IH csv1 by simp
  have 2: "cards st' = cards st @ map (\<lambda>c. the (find_pos (has_id c) (objs st))) (c # data)"
    using IH by (simp add: cards1 pos1 i)
  have 3: "\<forall>c\<in>set (c # data). find_pos (has_id c) (objs st) \<noteq> None \<and> (\<exists>im. build_images c = Inr im)"
    using IH by (simp add: pos1 i im)
  have 4: "running_price st' =
     foldl (\<lambda>t c. num_add ar t (line_value ar (objs st ! the (find_pos (has_id c) (objs st)))))
       (running_price st) (c # data)"
    using IH by (simp add: fold_eq price1 i)
  from 1 2 3 4 show ?case by blast
qed

lemma merge_loop_total:
  "\<forall>c\<in>set data. find_pos (has_id c) (objs st) \<noteq> None \<and> (\<exists>im. build_images c = Inr im) \<Longrightarrow>
   \<exists>st'. merge_loop ar data st = Inr st'"
proof (induction data arbitrary: st)
  case Nil
  then show ?case by simp
next
  case (Cons c data)
  from Cons.prems obtain i im where "find_pos (has_id c) (objs st) = Some i" "build_images c = Inr im"
    by auto
  then obtain st1 where c: "merge_card ar c st = Inr st1"
    by (simp add: merge_card_Inr)
  have "find_pos (has_id d) (objs st1) = find_pos (has_id d) (objs st)" for d
    using merge_card_csv [OF c] by (rule find_pos_csv)
  with Cons.prems have "\<forall>d\<in>set data. find_pos (has_id d) (objs st1) \<noteq> None \<and> (\<exists>im. build_images d = Inr im)"
    by simp
  from Cons.IH [OF this] c show ?case by simp
qed

lemma merge_card_enriched:
  assumes "merge_card ar c st = Inr st'"
    and "\<forall>i\<in>set (cards st). i < length (objs st) \<and> enriched (objs st ! i)"
  shows "\<forall>i\<in>set (cards st'). i < length (objs st') \<and> enriched (objs st' ! i)"
proof -
  from assms(1) obtain i im where i: "find_pos (has_id c) (objs st) = Some i"
    and st': "objs st' = (objs st)[i := merged c im (objs st ! i)]" "cards st' = cards st @ [i]"
    by (auto simp: merge_card_Inr)
  from find_pos_Some [OF i] have "i < length (objs st)" by simp
  with assms(2) show ?thesis
    by (auto simp: st' nth_list_update enriched_merged)
qed

lemma merge_loop_enriched:
  "merge_loop ar data st = Inr st' \<Longrightarrow>
   \<forall>i\<in>set (cards st). i < length (objs st) \<and> enriched (objs st ! i) \<Longrightarrow>
   \<forall>i\<in>set (cards st'). i < length (objs st') \<and> enriched (objs st' ! i)"
proof (induction data arbitrary: st)
  case Nil
  then show ?case by simp
next
  case (Cons c data)
  from Cons.prems(1) obtain st1 where c: "merge_card ar c st = Inr st1"
    and rest: "merge_loop ar data st1 = Inr st'"
    by (auto split: sum.splits)
  from merge_card_enriched [OF c Cons.prems(2)] Cons.IH [OF rest] show ?case by blast
qed

subsection \<open>Batching\<close>

lemma batches_from_beyond: "length records \<le> i \<Longrightarrow> batches_from i records = []"
  by (subst batches_from.simps) simp

lemma batches_from_step:
  "i < length records \<Longrightarrow>
   batches_from i records = slice records i (i + BATCH_SIZE) # batches_from (i + BATCH_SIZE) records"
  by (subst batches_from.simps) simp

lemma concat_batches_from: "concat (batches_from i records) = drop i records"
proof (induction i records rule: batches_from.induct)
  case (1 i records)
  show ?case
  proof (cases "i < length records")
    case True
    have "take BATCH_SIZE (drop i records) @ drop (i + BATCH_SIZE) records = drop i records"
      by (metis add.commute append_take_drop_id drop_drop)
    with True 1 show ?thesis
      by (simp add: batches_from_step slice_def)
  next
    case False
    then show ?thesis by (simp add: batches_from_beyond)
  qed
qed

lemma length_batches_from:
  "length (batches_from i records) = (length records - i + (BATCH_SIZE - 1)) div BATCH_SIZE"
proof (induction i records rule: batches_from.induct)
  case (1 i records)
  show ?case
  proof (cases "i < length records")
    case True
    then obtain d where d: "length records - i = Suc d"
      by (metis Suc_diff_Suc)
    have "length records - (i + BATCH_SIZE) = Suc d - BATCH_SIZE"
      using d by simp
    with True 1 d show ?thesis
      by (simp add: batches_from_step BATCH_SIZE_def)
  next
    case False
    then show ?thesis by (simp add: batches_from_beyond BATCH_SIZE_def)
  qed
qed

lemma nth_batches_from:
  "k < length (batches_from i records) \<Longrightarrow>
   batches_from i records ! k = slice records (i + k * BATCH_SIZE) (i + k * BATCH_SIZE + BATCH_SIZE)"
proof (induction i records arbitrary: k rule: batches_from.induct)
  case (1 i records)
  show ?case
  proof (cases "i < length records")
    case True
    show ?thesis
    proof (cases k)
      case 0
      with True show ?thesis by (simp add: batches_from_step)
    next
      case (Suc k')
      with True "1.prems" have "k' < length (batches_from (i + BATCH_SIZE) records)"
        by (simp add: batches_from_step)
      with True "1.IH" have
        "batches_from (i + BATCH_SIZE) records ! k' =
         slice records (i + BATCH_SIZE + k' * BATCH_SIZE) (i + BATCH_SIZE + k' * BATCH_SIZE + BATCH_SIZE)"
        by blast
      with True Suc show ?thesis
        by (simp add: batches_from_step add.assoc add.left_commute)
    qed
  next
    case False
    with "1.prems" show ?thesis by (simp add: batches_from_beyond)
  qed
qed

lemma ceil75: "int ((n + 74) div 75) = \<lceil>real n / 75\<rceil>"
proof -
  have "\<lceil>real n / 75\<rceil> = \<lceil>(of_int (int n) :: real) / of_int 75\<rceil>" by simp
  also have "\<dots> = - (- int n div 75)" by (rule ceiling_divide_eq_div)
  also have "\<dots> = int ((n + 74) div 75)" by (simp add: zdiv_int)
  finally show ?thesis by simp
qed

subsection \<open>Merging one metadata object\<close>

lemma merge_card_total:
  "find_pos (has_id c) (objs st) = Some i \<Longrightarrow> build_images c = Inr im \<Longrightarrow>
   \<exists>st'. merge_card ar c st = Inr st' \<and> objs st' ! i = merged c im (objs st ! i)"
proof -
  assume i: "find_pos (has_id c) (objs st) = Some i" and im: "build_images c = Inr im"
  from find_pos_Some [OF i] have "i < length (objs st)" by simp
  with i im show ?thesis by (simp add: merge_card_Inr)
qed

text \<open>
  Claim C7. A metadata object whose identifier is found in the batch is merged, and the
  images of the object it is merged onto are: for a unified \<open>image_uris\<close> object, \<open>front\<close>
  from it and no \<open>back\<close>; for a \<open>card_faces\<close> list of one face, \<open>front\<close> from that face
  and no \<open>back\<close>; for a \<open>card_faces\<close> list of two faces, \<open>front\<close> from the first face and
  \<open>back\<close> from the second. In the two \<open>card_faces\<close> shapes the object has no
  \<open>image_uris\<close> of its own and every face carries one, as the service's interface says.
\<close>

theorem image_set_by_shape:
  assumes "find_pos (has_id c) (objs st) = Some i"
  shows "(\<forall>u. image_uris c = Some u \<longrightarrow>
            (\<exists>st'. merge_card ar c st = Inr st' \<and>
               images (objs st' ! i) = Some \<lparr> front = u, back_face = None \<rparr>))
       \<and> (\<forall>f u. image_uris c = None \<and> card_faces c = Some [f] \<and> face_image_uris f = Some u \<longrightarrow>
            (\<exists>st'. merge_card ar c st = Inr st' \<and>
               images (objs st' ! i) = Some \<lparr> front = u, back_face = None \<rparr>))
       \<and> (\<forall>f g u v. image_uris c = None \<and> card_faces c = Some [f, g] \<and>
                   face_image_uris f = Some u \<and> face_image_uris g = Some v \<longrightarrow>
            (\<exists>st'. merge_card ar c st = Inr st' \<and>
               images (objs st' ! i) = Some \<lparr> front = u, back_face = Some v \<rparr>))"
proof (intro conjI allI impI)
  fix u assume "image_uris c = Some u"
  then have "build_images c = Inr \<lparr> front = u, back_face = None \<rparr>"
    by (simp add: build_images_def copy_uris_id)
  from merge_card_total [OF assms this, of ar]
  show "\<exists>st'. merge_card ar c st = Inr st' \<and> images (objs st' ! i) = Some \<lparr> front = u, back_face = None \<rparr>"
    by (auto simp: merged_def)
next
  fix f u assume "image_uris c = None \<and> card_faces c = Some [f] \<and> face_image_uris f = Some u"
  then have "build_images c = Inr \<lparr> front = u, back_face = None \<rparr>"
    by (simp add: build_images_def copy_uris_id)
  from merge_card_total [OF assms this, of ar]
  show "\<exists>st'. merge_card ar c st = Inr st' \<and> images (objs st' ! i) = Some \<lparr> front = u, back_face = None \<rparr>"
    by (auto simp: merged_def)
next
  fix f g u v
  assume "image_uris c = None \<and> card_faces c = Some [f, g] \<and>
          face_image_uris f = Some u \<and> face_image_uris g = Some v"
  then have "build_images c = Inr \<lparr> front = u, back_face = Some v \<rparr>"
    by (simp add: build_images_def copy_uris_id)
  from merge_card_total [OF assms this, of ar]
  show "\<exists>st'. merge_card ar c st = Inr st' \<and> images (objs st' ! i) = Some \<lparr> front = u, back_face = Some v \<rparr>"
    by (auto simp: merged_def)
qed

lemma two_records_ids: "map scryfallId two_records = [Some ''sf-bolt'', Some ''sf-delver'']"
  by (simp add: two_records_def readCsv_map record_of_row_def bolt_row_def delver_row_def col_def)

lemma find_bolt: "find_pos (has_id bolt_card) (objs (start_state two_records tp)) = Some 0"
  using two_records_ids by (simp add: find_pos_has_id start_state_def bolt_card_def)

lemma find_delver: "find_pos (has_id delver_card) (objs (start_state two_records tp)) = Some 1"
  using two_records_ids by (simp add: find_pos_has_id start_state_def delver_card_def)

lemma find_one_face: "find_pos (has_id one_face_card) (objs (start_state two_records tp)) = Some 1"
  using two_records_ids by (simp add: find_pos_has_id start_state_def delver_card_def one_face_card_def)

text \<open>The three shapes, merged onto the records of two rows.\<close>

theorem image_set_by_shape_witness:
  "(case merge_card exact_arith bolt_card (start_state two_records (Num 0)) of
      Inl e \<Rightarrow> False
    | Inr st' \<Rightarrow> images (objs st' ! 0) = Some \<lparr> front = uris_of ''bolt'', back_face = None \<rparr>)
   \<and> (case merge_card exact_arith one_face_card (start_state two_records (Num 0)) of
      Inl e \<Rightarrow> False
    | Inr st' \<Rightarrow> images (objs st' ! 1) = Some \<lparr> front = uris_of ''delver'', back_face = None \<rparr>)
   \<and> (case merge_card exact_arith delver_card (start_state two_records (Num 0)) of
      Inl e \<Rightarrow> False
    | Inr st' \<Rightarrow> images (objs st' ! 1) =
        Some \<lparr> front = uris_of ''delver'', back_face = Some (uris_of ''aberration'') \<rparr>)"
proof -
  have a: "image_uris bolt_card = Some (uris_of ''bolt'')"
    by (simp add: bolt_card_def)
  have b: "image_uris one_face_card = None \<and>
           card_faces one_face_card = Some [\<lparr> face_image_uris = Some (uris_of ''delver'') \<rparr>] \<and>
           face_image_uris \<lparr> face_image_uris = Some (uris_of ''delver'') \<rparr> = Some (uris_of ''delver'')"
    by (simp add: one_face_card_def delver_card_def)
  have c: "image_uris delver_card = None \<and>
           card_faces delver_card = Some [\<lparr> face_image_uris = Some (uris_of ''delver'') \<rparr>,
                                          \<lparr> face_image_uris = Some (uris_of ''aberration'') \<rparr>] \<and>
           face_image_uris \<lparr> face_image_uris = Some (uris_of ''delver'') \<rparr> = Some (uris_of ''delver'') \<and>
           face_image_uris \<lparr> face_image_uris = Some (uris_of ''aberration'') \<rparr> = Some (uris_of ''aberration'')"
    by (simp add: delver_card_def)
  from image_set_by_shape [OF find_bolt, where ar = exact_arith and tp1 = "Num 0"] a
  have 1: "\<exists>st'. merge_card exact_arith bolt_card (start_state two_records (Num 0)) = Inr st' \<and>
             images (objs st' ! 0) = Some \<lparr> front = uris_of ''bolt'', back_face = None \<rparr>"
    by blast
  from image_set_by_shape [OF find_one_face, where ar = exact_arith and tp1 = "Num 0"] b
  have 2: "\<exists>st'. merge_card exact_arith one_face_card (start_state two_records (Num 0)) = Inr st' \<and>
             images (objs st' ! 1) = Some \<lparr> front = uris_of ''delver'', back_face = None \<rparr>"
    by blast
  from image_set_by_shape [OF find_delver, where ar = exact_arith and tp1 = "Num 0"] c
  have 3: "\<exists>st'. merge_card exact_arith delver_card (start_state two_records (Num 0)) = Inr st' \<and>
             images (objs st' ! 1) =
               Some \<lparr> front = uris_of ''delver'', back_face = Some (uris_of ''aberration'') \<rparr>"
    by blast
  from 1 2 3 show ?thesis by auto
qed

subsection \<open>What a batch hands to persistence\<close>

lemma merge_batch_Inr:
  assumes "merge_batch ar records data tp = Inr (docs, tp')"
  shows "\<exists>st'. merge_loop ar data \<lparr> objs = records, cards = [], running_price = tp \<rparr> = Inr st'
           \<and> docs = map (\<lambda>i. objs st' ! i) (cards st') \<and> tp' = running_price st'"
  using assms by (auto simp: merge_batch_def split: sum.splits)

lemma nth_csv:
  assumes "map csv_part xs = map csv_part ys" and "k < length ys"
  shows "csv_part (xs ! k) = csv_part (ys ! k)"
proof -
  have len: "length xs = length ys"
    using assms(1) by (rule map_eq_imp_length_eq)
  have "csv_part (xs ! k) = map csv_part xs ! k"
    using assms(2) len by simp
  also have "\<dots> = map csv_part ys ! k"
    by (simp only: assms(1))
  also have "\<dots> = csv_part (ys ! k)"
    using assms(2) by simp
  finally show ?thesis .
qed

lemma merge_batch_docs:
  assumes "merge_batch ar records data tp = Inr (docs, tp')"
  shows "map csv_part docs = map (\<lambda>c. csv_part (records ! the (find_pos (has_id c) records))) data"
    and "\<forall>c\<in>set data. find_pos (has_id c) records \<noteq> None \<and> (\<exists>im. build_images c = Inr im)"
    and "tp' = foldl (\<lambda>t c. num_add ar t (line_value ar (records ! the (find_pos (has_id c) records)))) tp data"
proof -
  from merge_batch_Inr [OF assms] obtain st' where
    loop: "merge_loop ar data \<lparr> objs = records, cards = [], running_price = tp \<rparr> = Inr st'"
    and docs: "docs = map (\<lambda>i. objs st' ! i) (cards st')" and tp': "tp' = running_price st'"
    by blast
  from merge_loop_Inr [OF loop] have csv: "map csv_part (objs st') = map csv_part records"
    and cards': "cards st' = map (\<lambda>c. the (find_pos (has_id c) records)) data"
    and found: "\<forall>c\<in>set data. find_pos (has_id c) records \<noteq> None \<and> (\<exists>im. build_images c = Inr im)"
    and price: "running_price st' =
       foldl (\<lambda>t c. num_add ar t (line_value ar (records ! the (find_pos (has_id c) records)))) tp data"
    by simp_all
  show "\<forall>c\<in>set data. find_pos (has_id c) records \<noteq> None \<and> (\<exists>im. build_images c = Inr im)"
    by (rule found)
  show "tp' = foldl (\<lambda>t c. num_add ar t (line_value ar (records ! the (find_pos (has_id c) records)))) tp data"
    using tp' price by simp
  have "csv_part (objs st' ! the (find_pos (has_id c) records)) =
        csv_part (records ! the (find_pos (has_id c) records))" if "c \<in> set data" for c
  proof -
    from found that obtain k where k: "find_pos (has_id c) records = Some k" by auto
    from find_pos_Some [OF k] have "k < length records" by simp
    from nth_csv [OF csv this] k show ?thesis by simp
  qed
  then show "map csv_part docs = map (\<lambda>c. csv_part (records ! the (find_pos (has_id c) records))) data"
    by (simp add: docs cards' comp_def)
qed

subsection \<open>processBatch and the loop of processRecords\<close>

lemma processBatch_cases:
  "processBatch ar env k records w tp = Exited (exit w) \<or>
   (\<exists>data docs tp'.
      axios_post env k (identifiers_of records) = Some data \<and>
      merge_batch ar records data tp = Inr (docs, tp') \<and>
      insert_ok env k docs \<and>
      processBatch ar env k records w tp =
        Returned (length records, tp') (w\<lparr>magicCards := magicCards w @ docs\<rparr>))"
proof (cases "axios_post env k (identifiers_of records)")
  case None
  then show ?thesis by (simp add: processBatch_def try_batch_def)
next
  case (Some data)
  show ?thesis
  proof (cases "merge_batch ar records data tp")
    case (Inl e)
    with Some show ?thesis by (simp add: processBatch_def try_batch_def)
  next
    case (Inr result)
    obtain docs tp' where result: "result = (docs, tp')" by (cases result)
    show ?thesis
    proof (cases "insert_ok env k docs")
      case True
      with Some Inr result show ?thesis by (simp add: processBatch_def try_batch_def)
    next
      case False
      with Some Inr result show ?thesis by (simp add: processBatch_def try_batch_def)
    qed
  qed
qed

lemma processBatch_no_answer:
  "axios_post env k (identifiers_of records) = None \<Longrightarrow>
   processBatch ar env k records w tp = Exited (exit w)"
  by (simp add: processBatch_def try_batch_def)

lemma loop_stop:
  "length records \<le> i \<Longrightarrow> processRecords_loop ar env i records w t = Returned t w"
  by (subst processRecords_loop.simps) simp

lemma loop_exited:
  "i < length records \<Longrightarrow>
   processBatch ar env (i div BATCH_SIZE) (slice records i (i + BATCH_SIZE)) w (totalPrice t) = Exited w' \<Longrightarrow>
   processRecords_loop ar env i records w t = Exited w'"
  by (subst processRecords_loop.simps) simp

lemma loop_returned:
  "i < length records \<Longrightarrow>
   processBatch ar env (i div BATCH_SIZE) (slice records i (i + BATCH_SIZE)) w (totalPrice t) =
     Returned (n, tp') w' \<Longrightarrow>
   processRecords_loop ar env i records w t =
     processRecords_loop ar env (i + BATCH_SIZE) records w' \<lparr> totalCards = totalCards t + n, totalPrice = tp' \<rparr>"
  by (subst processRecords_loop.simps) simp

lemma exit_facts:
  "magicCollection (exit w) = magicCollection w" "magicCards (exit w) = magicCards w"
  "\<not> db (exit w)" "exit_code (exit w) = Some 1"
  by (simp_all add: exit_def)

lemma merge_batch_enriched:
  assumes "merge_batch ar records data tp = Inr (docs, tp')"
  shows "\<forall>d\<in>set docs. enriched d"
proof -
  from merge_batch_Inr [OF assms] obtain st' where
    loop: "merge_loop ar data \<lparr> objs = records, cards = [], running_price = tp \<rparr> = Inr st'"
    and docs: "docs = map (\<lambda>i. objs st' ! i) (cards st')"
    by blast
  from merge_loop_enriched [OF loop] have "\<forall>i\<in>set (cards st'). enriched (objs st' ! i)"
    by simp
  then show ?thesis by (simp add: docs)
qed

lemma loop_outcome:
  "(case processRecords_loop ar env i records w t of
      Exited w' \<Rightarrow> magicCollection w' = magicCollection w \<and> \<not> db w' \<and> exit_code w' = Some 1
    | Threw e w' \<Rightarrow> False
    | Returned t' w' \<Rightarrow>
        magicCollection w' = magicCollection w \<and> db w' = db w \<and> exit_code w' = exit_code w \<and>
        totalCards t' = totalCards t + (length records - i))"
proof (induction ar env i records w t rule: processRecords_loop.induct)
  case (1 ar env i records w t)
  show ?case
  proof (cases "i < length records")
    case False
    then show ?thesis by (simp add: loop_stop)
  next
    case True
    let ?batch = "slice records i (i + BATCH_SIZE)"
    from processBatch_cases [of ar env "i div BATCH_SIZE" ?batch w "totalPrice t"]
    show ?thesis
    proof (elim disjE exE conjE)
      assume "processBatch ar env (i div BATCH_SIZE) ?batch w (totalPrice t) = Exited (exit w)"
      from loop_exited [OF True this] show ?thesis by (simp add: exit_facts)
    next
      fix data docs tp'
      assume ret: "processBatch ar env (i div BATCH_SIZE) ?batch w (totalPrice t) =
          Returned (length ?batch, tp') (w\<lparr>magicCards := magicCards w @ docs\<rparr>)"
      have len: "length ?batch + (length records - (i + BATCH_SIZE)) = length records - i"
        using True by (simp add: slice_def)
      from "1.IH" [OF True ret refl] len show ?thesis
        unfolding loop_returned [OF True ret]
        by (simp split: outcome.splits)
    qed
  qed
qed

lemma loop_answers:
  "processRecords_loop ar env i records w t = Returned t' w' \<Longrightarrow>
   i + m * BATCH_SIZE < length records \<Longrightarrow>
   axios_post env (i div BATCH_SIZE + m)
     (identifiers_of (slice records (i + m * BATCH_SIZE) (i + m * BATCH_SIZE + BATCH_SIZE))) \<noteq> None"
proof (induction ar env i records w t arbitrary: m rule: processRecords_loop.induct)
  case (1 ar env i records w t)
  from "1.prems"(2) have True: "i < length records" by simp
  let ?batch = "slice records i (i + BATCH_SIZE)"
  from processBatch_cases [of ar env "i div BATCH_SIZE" ?batch w "totalPrice t"]
  show ?case
  proof (elim disjE exE conjE)
    assume "processBatch ar env (i div BATCH_SIZE) ?batch w (totalPrice t) = Exited (exit w)"
    from loop_exited [OF True this] "1.prems"(1) show ?thesis by simp
  next
    fix data docs tp'
    assume ans: "axios_post env (i div BATCH_SIZE) (identifiers_of ?batch) = Some data"
      and ret: "processBatch ar env (i div BATCH_SIZE) ?batch w (totalPrice t) =
          Returned (length ?batch, tp') (w\<lparr>magicCards := magicCards w @ docs\<rparr>)"
    show ?thesis
    proof (cases m)
      case 0
      with ans show ?thesis by simp
    next
      case (Suc m')
      from "1.prems"(1) have rest: "processRecords_loop ar env (i + BATCH_SIZE) records
          (w\<lparr>magicCards := magicCards w @ docs\<rparr>)
          \<lparr> totalCards = totalCards t + length ?batch, totalPrice = tp' \<rparr> = Returned t' w'"
        unfolding loop_returned [OF True ret] .
      from "1.prems"(2) Suc have lt: "i + BATCH_SIZE + m' * BATCH_SIZE < length records"
        by (simp add: add.assoc add.commute)
      have d: "(i + BATCH_SIZE) div BATCH_SIZE = Suc (i div BATCH_SIZE)"
        by (simp add: BATCH_SIZE_def)
      from "1.IH" [OF True ret refl rest lt] d Suc show ?thesis
        by (simp add: add.assoc add.left_commute add.commute)
    qed
  qed
qed

lemma loop_cards:
  assumes new: "\<And>d. enriched d \<Longrightarrow> Q d"
  shows "\<forall>d\<in>set (magicCards w). Q d \<Longrightarrow>
         \<forall>d\<in>set (magicCards (world_of (processRecords_loop ar env i records w t))). Q d"
proof (induction ar env i records w t rule: processRecords_loop.induct)
  case (1 ar env i records w t)
  show ?case
  proof (cases "i < length records")
    case False
    with "1.prems" show ?thesis by (simp add: loop_stop)
  next
    case True
    let ?batch = "slice records i (i + BATCH_SIZE)"
    from processBatch_cases [of ar env "i div BATCH_SIZE" ?batch w "totalPrice t"]
    show ?thesis
    proof (elim disjE exE conjE)
      assume "processBatch ar env (i div BATCH_SIZE) ?batch w (totalPrice t) = Exited (exit w)"
      from loop_exited [OF True this] "1.prems" show ?thesis by (simp add: exit_facts)
    next
      fix data docs tp'
      assume mb: "merge_batch ar ?batch data (totalPrice t) = Inr (docs, tp')"
        and ret: "processBatch ar env (i div BATCH_SIZE) ?batch w (totalPrice t) =
          Returned (length ?batch, tp') (w\<lparr>magicCards := magicCards w @ docs\<rparr>)"
      from merge_batch_enriched [OF mb] new have "\<forall>d\<in>set docs. Q d" by blast
      with "1.prems" have "\<forall>d\<in>set (magicCards (w\<lparr>magicCards := magicCards w @ docs\<rparr>)). Q d"
        by auto
      from "1.IH" [OF True ret refl this] show ?thesis
        unfolding loop_returned [OF True ret] .
    qed
  qed
qed

subsection \<open>Whole runs\<close>

lemma connectToDb_ok:
  "connect_ok env \<Longrightarrow> delete_collection_ok env \<Longrightarrow> delete_cards_ok env \<Longrightarrow>
   connectToDb env (initial_world oc ocl) = Returned () connected_world"
  by (simp add: connectToDb_def initial_world_def connected_world_def)

lemma main_not_connected:
  assumes "\<not> (connect_ok env \<and> delete_collection_ok env \<and> delete_cards_ok env)"
  shows "magicCards (main ar env rows oc ocl) = oc"
    and "exit_code (main ar env rows oc ocl) = Some 1"
  using assms
  by (auto simp: main_def connectToDb_def initial_world_def exit_def Let_def)

lemma main_connected:
  assumes "connect_ok env" "delete_collection_ok env" "delete_cards_ok env"
  shows "main ar env rows oc ocl =
     (case processRecords_loop ar env 0 (readCsv ar rows) connected_world (zero_totals ar) of
        Exited w \<Rightarrow> w
      | Threw e w \<Rightarrow> exit w
      | Returned t w \<Rightarrow>
          (if save_ok env \<lparr> summary_value = totalPrice t, summary_total = totalCards t \<rparr>
           then (w\<lparr>magicCollection := magicCollection w @
                      [\<lparr> summary_value = totalPrice t, summary_total = totalCards t \<rparr>]\<rparr>)
                  \<lparr>db := False, exit_code := Some 0\<rparr>
           else exit w))"
proof -
  note lo = loop_outcome [where ar = ar and env = env and i = 0 and records = "readCsv ar rows"
      and w = connected_world and t = "zero_totals ar"]
  show ?thesis
  proof (cases "processRecords_loop ar env 0 (readCsv ar rows) connected_world (zero_totals ar)")
    case (Exited w)
    with assms show ?thesis
      by (simp add: main_def connectToDb_ok processRecords_def zero_totals_def)
  next
    case (Threw e w)
    with lo show ?thesis by simp
  next
    case (Returned t w)
    with lo have "db w" by (simp add: connected_world_def)
    with Returned assms show ?thesis
      by (simp add: main_def connectToDb_ok processRecords_def zero_totals_def
          saveCollection_def Let_def)
  qed
qed

lemma main_cards:
  assumes "connect_ok env" "delete_collection_ok env" "delete_cards_ok env"
  shows "magicCards (main ar env rows oc ocl) =
         magicCards (world_of (processRecords_loop ar env 0 (readCsv ar rows) connected_world (zero_totals ar)))"
  unfolding main_connected [OF assms]
  by (cases "processRecords_loop ar env 0 (readCsv ar rows) connected_world (zero_totals ar)")
     (simp_all add: exit_facts)

text \<open>
  Claim C8. Every object handed to \<open>saveCards\<close> has all the fields the merge adds: name,
  setCode, setName, rarity, layout and images (with its front). So every document in
  \<open>magicCards\<close> when a run has ended was enriched in full or was in the store before the
  run; when the connection and the two deletions succeed, every document was enriched in
  full.
\<close>

theorem persisted_records_enriched:
  "(merge_batch ar records data tp = Inr (docs, tp') \<longrightarrow> (\<forall>d\<in>set docs. enriched d))
   \<and> (\<forall>d\<in>set (magicCards (main ar env rows old_cards old_collection)).
         enriched d \<or> d \<in> set old_cards)
   \<and> (connect_ok env \<and> delete_collection_ok env \<and> delete_cards_ok env \<longrightarrow>
        (\<forall>d\<in>set (magicCards (main ar env rows old_cards old_collection)). enriched d))"
proof -
  have batch: "\<forall>d\<in>set docs. enriched d" if "merge_batch ar records data tp = Inr (docs, tp')"
    using that by (rule merge_batch_enriched)
  have start: "\<forall>d\<in>set (magicCards (connected_world :: 'a world)). enriched d"
    by (simp add: connected_world_def)
  have run: "\<forall>d\<in>set (magicCards (main ar env rows old_cards old_collection)). enriched d"
    if "connect_ok env \<and> delete_collection_ok env \<and> delete_cards_ok env"
    using loop_cards [where Q = enriched, OF _ start] that by (simp add: main_cards)
  have any: "\<forall>d\<in>set (magicCards (main ar env rows old_cards old_collection)).
         enriched d \<or> d \<in> set old_cards"
  proof (cases "connect_ok env \<and> delete_collection_ok env \<and> delete_cards_ok env")
    case True
    from run [OF this] show ?thesis by blast
  next
    case False
    then show ?thesis by (simp add: main_not_connected)
  qed
  from batch run any show ?thesis by blast
qed

lemma env_of_ok:
  "connect_ok (env_of answers)" "delete_collection_ok (env_of answers)" "delete_cards_ok (env_of answers)"
  by (simp_all add: env_of_def)

text \<open>Two rows, both answered.\<close>

theorem persisted_records_enriched_witness:
  "(case merge_batch exact_arith two_records [delver_card, bolt_card] (Num 0) of
      Inl e \<Rightarrow> False
    | Inr (docs, tp') \<Rightarrow> length docs = 2 \<and> enriched (docs ! 0) \<and> enriched (docs ! 1))
   \<and> length (magicCards (two_rows_run [delver_card, bolt_card])) = 2
   \<and> enriched (magicCards (two_rows_run [delver_card, bolt_card]) ! 0)
   \<and> enriched (magicCards (two_rows_run [delver_card, bolt_card]) ! 1)"
proof -
  have len: "case merge_batch exact_arith two_records [delver_card, bolt_card] (Num 0) of
      Inl e \<Rightarrow> False | Inr (docs, tp') \<Rightarrow> length docs = 2"
    by code_simp
  then obtain docs tp' where
    run: "merge_batch exact_arith two_records [delver_card, bolt_card] (Num 0) = Inr (docs, tp')"
    and docs: "length docs = 2"
    by (auto split: sum.splits)
  note t = persisted_records_enriched
    [of exact_arith two_records "[delver_card, bolt_card]" "Num 0" docs tp'
        "env_of (\<lambda>k. Some [delver_card, bolt_card])" "[bolt_row, delver_row]" "[]" "[]"]
  from t run have "\<forall>d\<in>set docs. enriched d" by blast
  with docs have 1: "enriched (docs ! 0) \<and> enriched (docs ! 1)" by simp
  have len2: "length (magicCards (two_rows_run [delver_card, bolt_card])) = 2"
    by code_simp
  from t env_of_ok [of "\<lambda>k. Some [delver_card, bolt_card]"]
  have "\<forall>d\<in>set (magicCards (two_rows_run [delver_card, bolt_card])). enriched d"
    unfolding two_rows_run_def by blast
  with len2 have 2: "enriched (magicCards (two_rows_run [delver_card, bolt_card]) ! 0)
      \<and> enriched (magicCards (two_rows_run [delver_card, bolt_card]) ! 1)"
    by simp
  from run docs 1 len2 2 show ?thesis by simp
qed

text \<open>
  Claim C1, as stated, fails: for two rows of which the service answers one, one record
  is enriched and inserted, the run ends with status 0, and the summary counts 2 cards.
\<close>

theorem card_count_counterexample:
  "map summary_total (magicCollection (two_rows_run [bolt_card])) = [2]
   \<and> map name (magicCards (two_rows_run [bolt_card])) = [Some ''Lightning Bolt'']
   \<and> exit_code (two_rows_run [bolt_card]) = Some 0"
  by code_simp

text \<open>
  Claim C1, amended. A batch that \<open>processBatch\<close> returns from adds \<open>records.length\<close>, the
  number of records of the batch, to \<open>totalCards\<close>, however many of them the response
  enriched and whatever their quantities. So the loop, when it returns, has added the
  number of records from its index on, and a run that ends with status 0 has saved one
  summary whose total is the number of rows.
\<close>

theorem card_count_is_batch_length:
  "(processBatch ar env k records w tp = Returned (n, tp') w' \<longrightarrow> n = length records)
   \<and> (processRecords_loop ar env i records w t = Returned t' w'' \<longrightarrow>
        totalCards t' = totalCards t + (length records - i))
   \<and> (exit_code (main ar env rows old_cards old_collection) = Some 0 \<longrightarrow>
        map summary_total (magicCollection (main ar env rows old_cards old_collection)) = [length rows])"
proof (intro conjI impI)
  assume "processBatch ar env k records w tp = Returned (n, tp') w'"
  with processBatch_cases [of ar env k records w tp] show "n = length records"
    by auto
next
  assume "processRecords_loop ar env i records w t = Returned t' w''"
  with loop_outcome [where ar = ar and env = env and i = i and records = records and w = w and t = t]
  show "totalCards t' = totalCards t + (length records - i)"
    by simp
next
  assume zero: "exit_code (main ar env rows old_cards old_collection) = Some 0"
  have ok: "connect_ok env \<and> delete_collection_ok env \<and> delete_cards_ok env"
  proof (rule ccontr)
    assume "\<not> ?thesis"
    from main_not_connected(2) [OF this] zero show False by simp
  qed
  then have c: "connect_ok env" "delete_collection_ok env" "delete_cards_ok env" by simp_all
  note lo = loop_outcome [where ar = ar and env = env and i = 0 and records = "readCsv ar rows"
      and w = connected_world and t = "zero_totals ar"]
  show "map summary_total (magicCollection (main ar env rows old_cards old_collection)) = [length rows]"
  proof (cases "processRecords_loop ar env 0 (readCsv ar rows) connected_world (zero_totals ar)")
    case (Exited x)
    with lo zero show ?thesis by (simp add: main_connected [OF c])
  next
    case (Threw e x)
    with lo show ?thesis by simp
  next
    case (Returned t x)
    with lo have "magicCollection x = []" and "totalCards t = length rows"
      by (simp_all add: connected_world_def zero_totals_def readCsv_map)
    with Returned zero show ?thesis
      by (simp add: main_connected [OF c] exit_facts split: if_splits)
  qed
qed

text \<open>A batch of two records with one answer returns 2. Eighty rows with empty answers:
  nothing is enriched or inserted, and the summary counts 80 cards.\<close>

theorem card_count_is_batch_length_witness:
  "(case processBatch exact_arith (env_of (\<lambda>k. Some [bolt_card])) 0 two_records connected_world (Num 0) of
      Returned (n, tp') w' \<Rightarrow> n = 2 \<and> length (magicCards w') = 1
    | _ \<Rightarrow> False)
   \<and> exit_code (eighty_rows_run (\<lambda>k. Some [])) = Some 0
   \<and> map summary_total (magicCollection (eighty_rows_run (\<lambda>k. Some []))) = [80]
   \<and> magicCards (eighty_rows_run (\<lambda>k. Some [])) = []"
proof -
  have "case processBatch exact_arith (env_of (\<lambda>k. Some [bolt_card])) 0 two_records connected_world (Num 0) of
      Returned (n, tp') w' \<Rightarrow> length (magicCards w') = 1 | _ \<Rightarrow> False"
    by code_simp
  then obtain n tp' w' where
    run: "processBatch exact_arith (env_of (\<lambda>k. Some [bolt_card])) 0 two_records connected_world (Num 0) =
            Returned (n, tp') w'"
    and one: "length (magicCards w') = 1"
    by (auto split: outcome.splits)
  have two: "length two_records = 2" by code_simp
  have zero: "exit_code (eighty_rows_run (\<lambda>k. Some [])) = Some 0" by code_simp
  have none: "magicCards (eighty_rows_run (\<lambda>k. Some [])) = []" by code_simp
  note t = card_count_is_batch_length
    [where ar = exact_arith and env = "env_of (\<lambda>k. Some [bolt_card])" and k = 0
       and records = two_records and w = connected_world and tp = "Num 0" and n = n and tp' = tp'
       and w' = w']
  note u = card_count_is_batch_length
    [where ar = exact_arith and env = "env_of (\<lambda>k. Some [])" and rows = "replicate 80 bolt_row"
       and old_cards = "[]" and old_collection = "[]"]
  from t run two have n: "n = 2" by simp
  from u zero have "map summary_total (magicCollection (eighty_rows_run (\<lambda>k. Some []))) = [80]"
    unfolding eighty_rows_run_def by simp
  with run n one zero none show ?thesis by simp
qed

lemma batch_index:
  assumes "k < length (batches records)"
  shows "k * BATCH_SIZE < length records"
    and "batches records ! k = slice records (k * BATCH_SIZE) (k * BATCH_SIZE + BATCH_SIZE)"
proof -
  from assms show "k * BATCH_SIZE < length records"
    by (simp add: batches_def length_batches_from BATCH_SIZE_def)
  from assms show "batches records ! k = slice records (k * BATCH_SIZE) (k * BATCH_SIZE + BATCH_SIZE)"
    by (simp add: batches_def nth_batches_from)
qed

text \<open>
  Claim C5. In a run that has connected and emptied the store, if the request for some
  batch is one that axios rejects, the process ends with no summary document in
  \<open>magicCollection\<close>, the connection released and exit status 1; if that batch is the
  first, \<open>magicCards\<close> is empty as well.
\<close>

theorem enrichment_failure_aborts:
  assumes "connect_ok env" and "delete_collection_ok env" and "delete_cards_ok env"
    and "k < length (batches (readCsv ar rows))"
    and "axios_post env k (identifiers_of (batches (readCsv ar rows) ! k)) = None"
  shows "magicCollection (main ar env rows old_cards old_collection) = []
       \<and> \<not> db (main ar env rows old_cards old_collection)
       \<and> exit_code (main ar env rows old_cards old_collection) = Some 1
       \<and> (k = 0 \<longrightarrow> magicCards (main ar env rows old_cards old_collection) = [])"
proof -
  let ?records = "readCsv ar rows"
  let ?loop = "processRecords_loop ar env 0 ?records connected_world (zero_totals ar)"
  note c = assms(1,2,3)
  note b = batch_index [OF assms(4)]
  note lo = loop_outcome [where ar = ar and env = env and i = 0 and records = ?records
      and w = connected_world and t = "zero_totals ar"]
  have not_returned: "?loop \<noteq> Returned t' w'" for t' w'
  proof
    assume "?loop = Returned t' w'"
    from loop_answers [OF this, of k] b assms(5) show False by simp
  qed
  then obtain w' where ex: "?loop = Exited w'"
    using lo by (cases ?loop) auto
  with lo have w': "magicCollection w' = []" "\<not> db w'" "exit_code w' = Some 1"
    by (simp_all add: connected_world_def)
  have m: "main ar env rows old_cards old_collection = w'"
    by (simp add: main_connected [OF c] ex)
  have first: "magicCards w' = []" if "k = 0"
  proof -
    from b(1) that have ne: "0 < length ?records" by simp
    from b(2) that assms(5)
    have "axios_post env (0 div BATCH_SIZE) (identifiers_of (slice ?records 0 (0 + BATCH_SIZE))) = None"
      by simp
    from processBatch_no_answer [OF this]
    have "processBatch ar env (0 div BATCH_SIZE) (slice ?records 0 (0 + BATCH_SIZE))
            connected_world (totalPrice (zero_totals ar)) = Exited (exit connected_world)" .
    from loop_exited [OF ne this] ex have "w' = exit connected_world" by simp
    then show ?thesis by (simp add: exit_facts connected_world_def)
  qed
  from w' first show ?thesis unfolding m by blast
qed

text \<open>Eighty rows: with the second request rejected, the one document of the first batch
  stays in the store and no summary is written; with the first request rejected, nothing
  is in the store.\<close>

theorem enrichment_failure_aborts_witness:
  "magicCollection (eighty_rows_run (\<lambda>k. if k = 0 then Some [bolt_card] else None)) = []
   \<and> \<not> db (eighty_rows_run (\<lambda>k. if k = 0 then Some [bolt_card] else None))
   \<and> exit_code (eighty_rows_run (\<lambda>k. if k = 0 then Some [bolt_card] else None)) = Some 1
   \<and> length (magicCards (eighty_rows_run (\<lambda>k. if k = 0 then Some [bolt_card] else None))) = 1
   \<and> magicCollection (eighty_rows_run (\<lambda>k. None)) = []
   \<and> \<not> db (eighty_rows_run (\<lambda>k. None))
   \<and> exit_code (eighty_rows_run (\<lambda>k. None)) = Some 1
   \<and> magicCards (eighty_rows_run (\<lambda>k. None)) = []"
proof -
  have len: "length (batches (readCsv exact_arith (replicate 80 bolt_row))) = 2"
    by code_simp
  have lt: "1 < length (batches (readCsv exact_arith (replicate 80 bolt_row)))"
    and lt0: "0 < length (batches (readCsv exact_arith (replicate 80 bolt_row)))"
    unfolding len by simp_all
  have fail1: "axios_post (env_of (\<lambda>k. if k = 0 then Some [bolt_card] else None)) 1
      (identifiers_of (batches (readCsv exact_arith (replicate 80 bolt_row)) ! 1)) = None"
    by (simp add: env_of_def)
  have fail0: "axios_post (env_of (\<lambda>k. None)) 0
      (identifiers_of (batches (readCsv exact_arith (replicate 80 bolt_row)) ! 0)) = None"
    by (simp add: env_of_def)
  have one: "length (magicCards (eighty_rows_run (\<lambda>k. if k = 0 then Some [bolt_card] else None))) = 1"
    by code_simp
  from enrichment_failure_aborts [OF env_of_ok lt fail1, of "[]" "[]"]
    enrichment_failure_aborts [OF env_of_ok lt0 fail0, of "[]" "[]"] one
  show ?thesis unfolding eighty_rows_run_def by simp
qed

subsection \<open>A record the response does not answer\<close>

lemma merge_batch_total:
  assumes "\<forall>c\<in>set data. find_pos (has_id c) records \<noteq> None \<and> (\<exists>im. build_images c = Inr im)"
  shows "\<exists>docs tp'. merge_batch ar records data tp = Inr (docs, tp')"
proof -
  from assms have "\<forall>c\<in>set data.
      find_pos (has_id c) (objs \<lparr> objs = records, cards = [], running_price = tp \<rparr>) \<noteq> None \<and>
      (\<exists>im. build_images c = Inr im)"
    by simp
  from merge_loop_total [OF this, of ar] show ?thesis
    by (auto simp: merge_batch_def)
qed

lemma merge_batch_ids:
  assumes "merge_batch ar records data tp = Inr (docs, tp')"
  shows "map scryfallId docs = map (\<lambda>c. Some (card_id c)) data"
proof -
  note d = merge_batch_docs [OF assms]
  have "scryfallId (records ! the (find_pos (has_id c) records)) = Some (card_id c)"
    if "c \<in> set data" for c
  proof -
    from d(2) that obtain k where k: "find_pos (has_id c) records = Some k" by auto
    from find_pos_Some [OF k] k show ?thesis by (simp add: has_id_def)
  qed
  then have "map (\<lambda>c. scryfallId (records ! the (find_pos (has_id c) records))) data =
             map (\<lambda>c. Some (card_id c)) data"
    by simp
  moreover from scryfallId_csv [of docs "map (\<lambda>c. records ! the (find_pos (has_id c) records)) data"] d(1)
  have "map scryfallId docs = map (\<lambda>c. scryfallId (records ! the (find_pos (has_id c) records))) data"
    by (simp add: comp_def)
  ultimately show ?thesis by simp
qed

lemma known_found:
  assumes "Some (card_id c) \<in> set (map scryfallId records)"
  shows "find_pos (has_id c) records \<noteq> None"
proof -
  from assms obtain r where "r \<in> set records" "has_id c r"
    by (auto simp: has_id_def)
  then show ?thesis by (auto simp: find_pos_None)
qed

lemma distinct_found:
  assumes "distinct (map scryfallId records)" and "i < length records"
    and "scryfallId (records ! i) = Some (card_id c)"
  shows "find_pos (has_id c) records = Some i"
proof (rule find_pos_first [OF assms(2)])
  show "has_id c (records ! i)" using assms(3) by (simp add: has_id_def)
  show "\<forall>j<i. \<not> has_id c (records ! j)"
  proof (intro allI impI notI)
    fix j assume j: "j < i" and "has_id c (records ! j)"
    then have eq: "map scryfallId records ! j = map scryfallId records ! i"
      using assms(2,3) by (simp add: has_id_def)
    have "j < length (map scryfallId records)" and "i < length (map scryfallId records)"
      using j assms(2) by simp_all
    from nth_eq_iff_index_eq [OF assms(1) this] eq have "j = i" by blast
    with j show False by simp
  qed
qed

text \<open>
  Claim C2, as stated, fails: for two rows of which the service answers the second only,
  the first record is not inserted and its value is not in the summary (125 is the value
  of the second row alone), but the summary counts 2 cards: the record is not excluded
  from \<open>totalCards\<close>.
\<close>

theorem absent_record_dropped_counterexample:
  "map summary_total (magicCollection (two_rows_run [delver_card])) = [2]
   \<and> map summary_value (magicCollection (two_rows_run [delver_card])) = [Num 125]
   \<and> map scryfallId (magicCards (two_rows_run [delver_card])) = [Some ''sf-delver'']"
  by code_simp

text \<open>
  Claim C2, amended. Take a batch whose identifiers are pairwise distinct and a response
  that answers every record of the batch but one, each of its objects carrying the
  identifier of a record of the batch and usable images, and let the insertion succeed.
  Then the body of \<open>processBatch\<close> returns; the record without an answer is not among the
  objects handed to \<open>saveCards\<close>; every other record is among them, with its fields of the
  file unchanged and enriched in full; and the new \<open>totalPrice\<close> does not depend on the
  price and the quantity of the record without an answer. The value returned, which is
  added to \<open>totalCards\<close>, is the length of the batch: the record is still counted.
\<close>

theorem absent_record_dropped:
  assumes dist: "distinct (map scryfallId records)"
    and j: "j < length records"
    and ans: "axios_post env k (identifiers_of records) = Some data"
    and store: "\<forall>docs. insert_ok env k docs"
    and known: "\<forall>c\<in>set data. Some (card_id c) \<in> set (map scryfallId records) \<and>
                  (\<exists>im. build_images c = Inr im)"
    and absent: "scryfallId (records ! j) \<notin> (\<lambda>c. Some (card_id c)) ` set data"
    and present: "\<forall>i<length records. i \<noteq> j \<longrightarrow>
                    scryfallId (records ! i) \<in> (\<lambda>c. Some (card_id c)) ` set data"
  shows "\<exists>docs tp'.
      try_batch ar env k records tp = Inr (docs, tp', length records)
    \<and> scryfallId (records ! j) \<notin> scryfallId ` set docs
    \<and> (\<forall>i<length records. i \<noteq> j \<longrightarrow>
          (\<exists>d\<in>set docs. csv_part d = csv_part (records ! i) \<and> enriched d))
    \<and> (\<forall>p q. \<exists>docs2.
          merge_batch ar (records[j := (records ! j)\<lparr>price := p, quantity := q\<rparr>]) data tp =
            Inr (docs2, tp'))"
proof -
  have found: "\<forall>c\<in>set data. find_pos (has_id c) records \<noteq> None \<and> (\<exists>im. build_images c = Inr im)"
    using known known_found by blast
  from merge_batch_total [OF found] obtain docs tp' where
    mb: "merge_batch ar records data tp = Inr (docs, tp')"
    by blast
  note d = merge_batch_docs [OF mb]
  have tb: "try_batch ar env k records tp = Inr (docs, tp', length records)"
    using ans mb store by (simp add: try_batch_def)
  have ids: "map scryfallId docs = map (\<lambda>c. Some (card_id c)) data"
    using mb by (rule merge_batch_ids)
  have "scryfallId ` set docs = set (map scryfallId docs)" by simp
  also have "\<dots> = (\<lambda>c. Some (card_id c)) ` set data" unfolding ids by simp
  finally have omitted: "scryfallId (records ! j) \<notin> scryfallId ` set docs"
    using absent by simp
  have others: "\<exists>d\<in>set docs. csv_part d = csv_part (records ! i) \<and> enriched d"
    if i: "i < length records" "i \<noteq> j" for i
  proof -
    from present i obtain c where c: "c \<in> set data" "scryfallId (records ! i) = Some (card_id c)"
      by auto
    from distinct_found [OF dist i(1) c(2)] have pos: "find_pos (has_id c) records = Some i" .
    from c(1) have "csv_part (records ! the (find_pos (has_id c) records)) \<in>
        set (map (\<lambda>c. csv_part (records ! the (find_pos (has_id c) records))) data)"
      by simp
    then have "csv_part (records ! i) \<in> set (map csv_part docs)"
      unfolding d(1) using pos by simp
    then obtain d where "d \<in> set docs" "csv_part d = csv_part (records ! i)"
      by auto
    with merge_batch_enriched [OF mb] show ?thesis by blast
  qed
  have unweighted: "\<exists>docs2. merge_batch ar (records[j := (records ! j)\<lparr>price := p, quantity := q\<rparr>]) data tp =
            Inr (docs2, tp')" for p q
  proof -
    let ?records' = "records[j := (records ! j)\<lparr>price := p, quantity := q\<rparr>]"
    have same_ids: "map scryfallId ?records' = map scryfallId records"
      using j by (simp add: map_update list_update_same_conv)
    have pos': "find_pos (has_id c) ?records' = find_pos (has_id c) records" for c
      by (simp add: find_pos_has_id same_ids)
    from found have "\<forall>c\<in>set data. find_pos (has_id c) ?records' \<noteq> None \<and> (\<exists>im. build_images c = Inr im)"
      by (simp add: pos')
    from merge_batch_total [OF this] obtain docs2 tp2 where
      mb2: "merge_batch ar ?records' data tp = Inr (docs2, tp2)"
      by blast
    have same: "?records' ! the (find_pos (has_id c) records) = records ! the (find_pos (has_id c) records)"
      if "c \<in> set data" for c
    proof -
      from found that obtain m where m: "find_pos (has_id c) records = Some m" by auto
      from find_pos_Some [OF m] have "scryfallId (records ! m) = Some (card_id c)"
        by (simp add: has_id_def)
      with absent that have "m \<noteq> j" by auto
      with m show ?thesis by simp
    qed
    have "tp2 = foldl (\<lambda>t c. num_add ar t (line_value ar (?records' ! the (find_pos (has_id c) ?records')))) tp data"
      using merge_batch_docs(3) [OF mb2] .
    also have "\<dots> = foldl (\<lambda>t c. num_add ar t (line_value ar (records ! the (find_pos (has_id c) records)))) tp data"
      by (rule foldl_cong) (simp_all add: pos' same)
    also have "\<dots> = tp'" using d(3) by simp
    finally show ?thesis using mb2 by blast
  qed
  from tb omitted others unweighted show ?thesis by blast
qed

text \<open>The two records, of which the service answers the second.\<close>

theorem absent_record_dropped_witness:
  "(case try_batch exact_arith (env_of (\<lambda>k. Some [delver_card])) 0 two_records (Num 0) of
      Inl e \<Rightarrow> False
    | Inr (docs, tp', n) \<Rightarrow>
        n = 2 \<and> Some ''sf-bolt'' \<notin> scryfallId ` set docs
      \<and> csv_part (docs ! 0) = csv_part (two_records ! 1) \<and> enriched (docs ! 0) \<and> tp' = Num 125)"
proof -
  have dist: "distinct (map scryfallId two_records)" by code_simp
  have j: "0 < length two_records" by code_simp
  have len: "length two_records = 2" by code_simp
  have ans: "axios_post (env_of (\<lambda>k. Some [delver_card])) 0 (identifiers_of two_records) = Some [delver_card]"
    by (simp add: env_of_def)
  have store: "\<forall>docs. insert_ok (env_of (\<lambda>k. Some [delver_card])) 0 docs"
    by (simp add: env_of_def)
  have ids: "map scryfallId two_records = [Some ''sf-bolt'', Some ''sf-delver'']" by code_simp
  have img: "build_images delver_card =
      Inr \<lparr> front = uris_of ''delver'', back_face = Some (uris_of ''aberration'') \<rparr>"
    by (simp add: build_images_def delver_card_def copy_uris_id)
  have cid: "card_id delver_card = ''sf-delver''" by (simp add: delver_card_def)
  have known: "\<forall>c\<in>set [delver_card]. Some (card_id c) \<in> set (map scryfallId two_records) \<and>
                  (\<exists>im. build_images c = Inr im)"
    by (simp add: ids img cid)
  have id0: "scryfallId (two_records ! 0) = Some ''sf-bolt''"
    and id1: "scryfallId (two_records ! 1) = Some ''sf-delver''"
    by code_simp+
  have absent: "scryfallId (two_records ! 0) \<notin> (\<lambda>c. Some (card_id c)) ` set [delver_card]"
    by (simp add: id0 cid)
  have present: "\<forall>i<length two_records. i \<noteq> 0 \<longrightarrow>
                    scryfallId (two_records ! i) \<in> (\<lambda>c. Some (card_id c)) ` set [delver_card]"
  proof (intro allI impI)
    fix i assume "i < length two_records" "i \<noteq> 0"
    with len have "i = 1" by simp
    with id1 cid show "scryfallId (two_records ! i) \<in> (\<lambda>c. Some (card_id c)) ` set [delver_card]"
      by simp
  qed
  from absent_record_dropped [OF dist j ans store known absent present, of exact_arith "Num 0"]
  obtain docs tp' where
    tb: "try_batch exact_arith (env_of (\<lambda>k. Some [delver_card])) 0 two_records (Num 0) =
           Inr (docs, tp', length two_records)"
    and omitted: "scryfallId (two_records ! 0) \<notin> scryfallId ` set docs"
    and others: "\<forall>i<length two_records. i \<noteq> 0 \<longrightarrow>
          (\<exists>d\<in>set docs. csv_part d = csv_part (two_records ! i) \<and> enriched d)"
    by blast
  have shape: "case try_batch exact_arith (env_of (\<lambda>k. Some [delver_card])) 0 two_records (Num 0) of
      Inl e \<Rightarrow> False | Inr (docs, tp', n) \<Rightarrow> length docs = 1 \<and> tp' = Num 125"
    by code_simp
  with tb have one: "length docs = 1" and tp': "tp' = Num 125" by simp_all
  from others len have "\<exists>d\<in>set docs. csv_part d = csv_part (two_records ! 1) \<and> enriched d"
    by simp
  moreover from one have "set docs = {docs ! 0}"
    by (cases docs) simp_all
  ultimately have "csv_part (docs ! 0) = csv_part (two_records ! 1) \<and> enriched (docs ! 0)"
    by simp
  with tb omitted tp' len id0 show ?thesis by simp
qed

subsection \<open>The loop of processRecords runs the batches in order\<close>

lemma loop_is_driver:
  "processRecords_loop ar env i records w t =
   spec_driver ar env (i div BATCH_SIZE) (batches_from i records) w t"
proof (induction ar env i records w t rule: processRecords_loop.induct)
  case (1 ar env i records w t)
  show ?case
  proof (cases "i < length records")
    case False
    then show ?thesis by (simp add: loop_stop batches_from_beyond)
  next
    case True
    let ?batch = "slice records i (i + BATCH_SIZE)"
    have d: "(i + BATCH_SIZE) div BATCH_SIZE = Suc (i div BATCH_SIZE)"
      by (simp add: BATCH_SIZE_def)
    show ?thesis
    proof (cases "processBatch ar env (i div BATCH_SIZE) ?batch w (totalPrice t)")
      case (Exited w')
      with True show ?thesis
        by (simp add: loop_exited batches_from_step)
    next
      case (Threw e w')
      with processBatch_cases [of ar env "i div BATCH_SIZE" ?batch w "totalPrice t"]
      show ?thesis by auto
    next
      case (Returned x w')
      obtain n tp' where x: "x = (n, tp')" by (cases x)
      from "1.IH" [OF True Returned x [symmetric]] True Returned x d show ?thesis
        by (simp add: loop_returned batches_from_step)
    qed
  qed
qed

text \<open>
  Claim C6. The loop of \<open>processRecords\<close> is the Driver run on the slices
  \<open>batches records\<close>, in their order, the k-th slice with the k-th request. For every
  sequence of N records these slices, taken with \<open>BATCH_SIZE = 75\<close>, are \<open>ceil(N/75)\<close>
  many; concatenated they give the records back; the k-th slice is the 75 records from
  position \<open>75 k\<close> on (contiguous, non-overlapping, in the original order), it is never
  empty, and every slice but the last has exactly 75 records.
\<close>

theorem batches_partition:
  "processRecords_loop ar env 0 records w t = spec_driver ar env 0 (batches records) w t
   \<and> int (length (batches records)) = \<lceil>real (length records) / real BATCH_SIZE\<rceil>
   \<and> concat (batches records) = records
   \<and> (\<forall>k < length (batches records).
        batches records ! k = take BATCH_SIZE (drop (k * BATCH_SIZE) records)
        \<and> batches records ! k \<noteq> []
        \<and> (Suc k < length (batches records) \<longrightarrow> length (batches records ! k) = BATCH_SIZE))"
proof (intro conjI allI impI)
  show "processRecords_loop ar env 0 records w t = spec_driver ar env 0 (batches records) w t"
    using loop_is_driver [of ar env 0 records w t] by (simp add: batches_def)
  show "int (length (batches records)) = \<lceil>real (length records) / real BATCH_SIZE\<rceil>"
    using ceil75 [of "length records"] by (simp add: batches_def length_batches_from BATCH_SIZE_def)
  show "concat (batches records) = records"
    by (simp add: batches_def concat_batches_from)
next
  fix k assume k: "k < length (batches records)"
  then show nth: "batches records ! k = take BATCH_SIZE (drop (k * BATCH_SIZE) records)"
    by (simp add: batches_def nth_batches_from slice_def)
  from k have "k * BATCH_SIZE < length records"
    by (simp add: batches_def length_batches_from BATCH_SIZE_def)
  then show "batches records ! k \<noteq> []"
    by (simp add: nth BATCH_SIZE_def)
  assume "Suc k < length (batches records)"
  then have "Suc k * BATCH_SIZE < length records"
    by (simp add: batches_def length_batches_from BATCH_SIZE_def)
  then show "length (batches records ! k) = BATCH_SIZE"
    by (simp add: nth)
qed

text \<open>On 160 records: three slices, the second full, the third the last ten, and the
  loop is the Driver on these three.\<close>

theorem batches_partition_witness:
  "length many_records = 160
   \<and> length (batches many_records) = 3
   \<and> concat (batches many_records) = many_records
   \<and> batches many_records ! 2 = drop 150 many_records
   \<and> length (batches many_records ! 1) = 75
   \<and> processRecords_loop exact_arith (env_of (\<lambda>k. Some [bolt_card])) 0 many_records
        connected_world (zero_totals exact_arith) =
      spec_driver exact_arith (env_of (\<lambda>k. Some [bolt_card])) 0
        [take 75 many_records, take 75 (drop 75 many_records), drop 150 many_records]
        connected_world (zero_totals exact_arith)"
proof -
  have n: "length many_records = 160"
    by (simp add: many_records_def readCsv_map)
  have len: "length (batches many_records) = 3"
    by (simp add: batches_def length_batches_from n BATCH_SIZE_def)
  note t = batches_partition [of exact_arith "env_of (\<lambda>k. Some [bolt_card])" many_records
      connected_world "zero_totals exact_arith"]
  have q: "batches many_records ! k = take BATCH_SIZE (drop (k * BATCH_SIZE) many_records)
        \<and> batches many_records ! k \<noteq> []
        \<and> (Suc k < length (batches many_records) \<longrightarrow> length (batches many_records ! k) = BATCH_SIZE)"
    if "k < length (batches many_records)" for k
    using t that by blast
  have lt: "(0::nat) < 3" "(1::nat) < 3" "(2::nat) < 3" "Suc 1 < 3" by simp_all
  from q [of 0, unfolded len] lt have b0: "batches many_records ! 0 = take 75 many_records"
    by (simp add: BATCH_SIZE_def)
  from q [of 1, unfolded len] lt have b1: "batches many_records ! 1 = take 75 (drop 75 many_records)"
    by (simp add: BATCH_SIZE_def)
  from q [of 1, unfolded len] lt have l1: "length (batches many_records ! 1) = BATCH_SIZE"
    by blast
  from q [of 2, unfolded len] lt have b2: "batches many_records ! 2 = drop 150 many_records"
    by (simp add: BATCH_SIZE_def n)
  from len obtain x y z where xyz: "batches many_records = [x, y, z]"
    by (auto simp: numeral_3_eq_3 length_Suc_conv)
  with b0 b1 b2 have bs: "batches many_records =
      [take 75 many_records, take 75 (drop 75 many_records), drop 150 many_records]"
    by simp
  from t have "concat (batches many_records) = many_records" by blast
  moreover from t have "processRecords_loop exact_arith (env_of (\<lambda>k. Some [bolt_card])) 0 many_records
        connected_world (zero_totals exact_arith) =
      spec_driver exact_arith (env_of (\<lambda>k. Some [bolt_card])) 0 (batches many_records)
        connected_world (zero_totals exact_arith)"
    by blast
  ultimately show ?thesis using n len b2 l1 bs by (simp add: BATCH_SIZE_def)
qed

subsection \<open>The request of a batch and what becomes of its answer\<close>

lemma merged_merged: "merged c' im' (merged c im r) = merged c' im' r"
  by (simp add: merged_def)

lemma merge_loop_objs:
  "merge_loop ar data st = Inr st' \<Longrightarrow> i < length (objs st) \<Longrightarrow>
   (objs st' ! i = objs st ! i \<and> (\<forall>c\<in>set data. find_pos (has_id c) (objs st) \<noteq> Some i))
   \<or> (\<exists>c\<in>set data. \<exists>im. find_pos (has_id c) (objs st) = Some i \<and> build_images c = Inr im \<and>
         objs st' ! i = merged c im (objs st ! i))"
proof (induction data arbitrary: st)
  case Nil
  then show ?case by simp
next
  case (Cons c data)
  from Cons.prems(1) obtain st1 where c: "merge_card ar c st = Inr st1"
    and rest: "merge_loop ar data st1 = Inr st'"
    by (auto split: sum.splits)
  from c obtain i0 im0 where i0: "find_pos (has_id c) (objs st) = Some i0"
    and im0: "build_images c = Inr im0"
    and objs1: "objs st1 = (objs st)[i0 := merged c im0 (objs st ! i0)]"
    by (auto simp: merge_card_Inr)
  have pos1: "find_pos (has_id d) (objs st1) = find_pos (has_id d) (objs st)" for d
    using merge_card_csv [OF c] by (rule find_pos_csv)
  have len1: "i < length (objs st1)"
    using Cons.prems(2) by (simp add: objs1)
  have at: "objs st1 ! i = (if i = i0 then merged c im0 (objs st ! i) else objs st ! i)"
    using Cons.prems(2) by (simp add: objs1 nth_list_update)
  from Cons.IH [OF rest len1] show ?case
  proof (elim disjE conjE bexE exE)
    assume same: "objs st' ! i = objs st1 ! i"
      and none: "\<forall>d\<in>set data. find_pos (has_id d) (objs st1) \<noteq> Some i"
    show ?thesis
    proof (cases "i = i0")
      case True
      with same at i0 im0 show ?thesis by auto
    next
      case False
      with same at i0 none show ?thesis by (auto simp: pos1)
    qed
  next
    fix d im
    assume d: "d \<in> set data" "find_pos (has_id d) (objs st1) = Some i" "build_images d = Inr im"
      and hit: "objs st' ! i = merged d im (objs st1 ! i)"
    from hit at have "objs st' ! i = merged d im (objs st ! i)"
      by (simp add: merged_merged)
    with d show ?thesis by (auto simp: pos1)
  qed
qed

lemma merge_batch_nth:
  assumes mb: "merge_batch ar records data tp = Inr (docs, tp')" and m: "m < length data"
  shows "\<exists>i c im. find_pos (has_id (data ! m)) records = Some i \<and> c \<in> set data \<and>
           card_id c = card_id (data ! m) \<and> build_images c = Inr im \<and>
           docs ! m = merged c im (records ! i)"
proof -
  from merge_batch_Inr [OF mb] obtain st' where
    loop: "merge_loop ar data \<lparr> objs = records, cards = [], running_price = tp \<rparr> = Inr st'"
    and docs: "docs = map (\<lambda>i. objs st' ! i) (cards st')"
    by blast
  from merge_loop_Inr [OF loop] have cards': "cards st' = map (\<lambda>c. the (find_pos (has_id c) records)) data"
    and found: "\<forall>c\<in>set data. find_pos (has_id c) records \<noteq> None"
    by simp_all
  from m have dm: "data ! m \<in> set data" by simp
  with found obtain i where i: "find_pos (has_id (data ! m)) records = Some i" by auto
  from find_pos_Some [OF i] have lt: "i < length records"
    and id: "scryfallId (records ! i) = Some (card_id (data ! m))"
    by (simp_all add: has_id_def)
  have dm': "docs ! m = objs st' ! i"
    using m i by (simp add: docs cards')
  from merge_loop_objs [OF loop, of i] lt dm i
  obtain c im where c: "c \<in> set data" "find_pos (has_id c) records = Some i"
    "build_images c = Inr im" "objs st' ! i = merged c im (records ! i)"
    by auto
  from find_pos_Some [OF c(2)] id have "card_id c = card_id (data ! m)"
    by (simp add: has_id_def)
  with i c dm' show ?thesis by auto
qed

lemma merge_batch_length:
  assumes "merge_batch ar records data tp = Inr (docs, tp')"
  shows "length docs = length data"
  using merge_batch_ids [OF assms] by (rule map_eq_imp_length_eq)

lemma processBatch_answered:
  assumes ans: "axios_post env k (identifiers_of records) = Some data"
    and known: "\<forall>c\<in>set data. Some (card_id c) \<in> set (map scryfallId records) \<and>
                  (\<exists>im. build_images c = Inr im)"
  shows "\<exists>docs tp'. merge_batch ar records data tp = Inr (docs, tp')
      \<and> (insert_ok env k docs \<longrightarrow>
           processBatch ar env k records w tp =
             Returned (length records, tp') (w\<lparr>magicCards := magicCards w @ docs\<rparr>))
      \<and> (\<not> insert_ok env k docs \<longrightarrow> processBatch ar env k records w tp = Exited (exit w))"
proof -
  have "\<forall>c\<in>set data. find_pos (has_id c) records \<noteq> None \<and> (\<exists>im. build_images c = Inr im)"
    using known known_found by blast
  from merge_batch_total [OF this] obtain docs tp' where
    mb: "merge_batch ar records data tp = Inr (docs, tp')"
    by blast
  with ans show ?thesis
    by (auto simp: processBatch_def try_batch_def)
qed

text \<open>
  Claim C9. For every batch, \<open>processBatch\<close> sends one request, which lists the
  \<open>scryfallId\<close> of every record of the batch in the order of the batch, duplicates
  included: if axios rejects the request with exactly this list, the process exits, and
  nothing else of the service bears on the result. When the request is answered, every
  object of the answer carries the identifier of a record and usable images, and the
  insertion succeeds, \<open>processBatch\<close> returns, having appended one document per object
  of the answer, in the order of the answer; the m-th document is the first record of the
  batch, in batch order, whose \<open>scryfallId\<close> equals the identifier of the m-th object,
  with the fields of an object of that identifier copied onto it: of the m-th object
  itself when no two objects of the answer share an identifier.
\<close>

theorem lookup_request_and_first_match:
  "(axios_post env k (map scryfallId records) = None \<longrightarrow>
      processBatch ar env k records w tp = Exited (exit w))
   \<and> (\<forall>env'. axios_post env' k (map scryfallId records) = axios_post env k (map scryfallId records)
          \<and> insert_ok env' k = insert_ok env k \<longrightarrow>
          processBatch ar env' k records w tp = processBatch ar env k records w tp)
   \<and> (axios_post env k (map scryfallId records) = Some data
       \<and> (\<forall>c\<in>set data. Some (card_id c) \<in> set (map scryfallId records) \<and>
                         (\<exists>im. build_images c = Inr im))
       \<and> (\<forall>docs. insert_ok env k docs) \<longrightarrow>
       (\<exists>docs tp'.
           processBatch ar env k records w tp =
             Returned (length records, tp') (w\<lparr>magicCards := magicCards w @ docs\<rparr>)
         \<and> length docs = length data
         \<and> (\<forall>m<length data. \<exists>i<length records.
               scryfallId (records ! i) = Some (card_id (data ! m))
             \<and> (\<forall>j<i. scryfallId (records ! j) \<noteq> Some (card_id (data ! m)))
             \<and> csv_part (docs ! m) = csv_part (records ! i)
             \<and> (\<exists>c\<in>set data. \<exists>im. card_id c = card_id (data ! m) \<and> build_images c = Inr im \<and>
                   docs ! m = merged c im (records ! i))
             \<and> (distinct (map card_id data) \<longrightarrow>
                   (\<exists>im. build_images (data ! m) = Inr im \<and>
                      docs ! m = merged (data ! m) im (records ! i))))))"
proof (intro conjI impI allI)
  assume "axios_post env k (map scryfallId records) = None"
  then show "processBatch ar env k records w tp = Exited (exit w)"
    by (simp add: processBatch_no_answer identifiers_of_map)
next
  fix env' :: "'a env"
  assume same: "axios_post env' k (map scryfallId records) = axios_post env k (map scryfallId records)
          \<and> insert_ok env' k = insert_ok env k"
  then have a: "axios_post env' k (identifiers_of records) = axios_post env k (identifiers_of records)"
    and b: "insert_ok env' k = insert_ok env k"
    by (simp_all add: identifiers_of_map)
  show "processBatch ar env' k records w tp = processBatch ar env k records w tp"
    unfolding processBatch_def try_batch_def a b ..
next
  assume h: "axios_post env k (map scryfallId records) = Some data
       \<and> (\<forall>c\<in>set data. Some (card_id c) \<in> set (map scryfallId records) \<and>
                         (\<exists>im. build_images c = Inr im))
       \<and> (\<forall>docs. insert_ok env k docs)"
  then have ans: "axios_post env k (identifiers_of records) = Some data"
    and known: "\<forall>c\<in>set data. Some (card_id c) \<in> set (map scryfallId records) \<and>
                         (\<exists>im. build_images c = Inr im)"
    and store: "\<forall>docs. insert_ok env k docs"
    by (simp_all add: identifiers_of_map)
  from processBatch_answered [OF ans known, of ar tp w] store obtain docs tp' where
    mb: "merge_batch ar records data tp = Inr (docs, tp')"
    and ret: "processBatch ar env k records w tp =
             Returned (length records, tp') (w\<lparr>magicCards := magicCards w @ docs\<rparr>)"
    by blast
  have each: "\<exists>i<length records.
               scryfallId (records ! i) = Some (card_id (data ! m))
             \<and> (\<forall>j<i. scryfallId (records ! j) \<noteq> Some (card_id (data ! m)))
             \<and> csv_part (docs ! m) = csv_part (records ! i)
             \<and> (\<exists>c\<in>set data. \<exists>im. card_id c = card_id (data ! m) \<and> build_images c = Inr im \<and>
                   docs ! m = merged c im (records ! i))
             \<and> (distinct (map card_id data) \<longrightarrow>
                   (\<exists>im. build_images (data ! m) = Inr im \<and>
                      docs ! m = merged (data ! m) im (records ! i)))"
    if m: "m < length data" for m
  proof -
    from merge_batch_nth [OF mb m] obtain i c im where
      i: "find_pos (has_id (data ! m)) records = Some i"
      and c: "c \<in> set data" "card_id c = card_id (data ! m)" "build_images c = Inr im"
      and dm: "docs ! m = merged c im (records ! i)"
      by blast
    from find_pos_Some [OF i] have lt: "i < length records"
      and hit: "scryfallId (records ! i) = Some (card_id (data ! m))"
      and first: "\<forall>j<i. scryfallId (records ! j) \<noteq> Some (card_id (data ! m))"
      by (simp_all add: has_id_def)
    have csv: "csv_part (docs ! m) = csv_part (records ! i)"
      by (simp add: dm csv_part_merged)
    have own: "\<exists>im. build_images (data ! m) = Inr im \<and> docs ! m = merged (data ! m) im (records ! i)"
      if "distinct (map card_id data)"
    proof -
      from m have "data ! m \<in> set data" by simp
      with that c(1,2) have "c = data ! m"
        by (meson distinct_map inj_on_def)
      with c(3) dm show ?thesis by auto
    qed
    from lt hit first csv c dm own show ?thesis by blast
  qed
  from ret merge_batch_length [OF mb] each
  show "\<exists>docs tp'.
           processBatch ar env k records w tp =
             Returned (length records, tp') (w\<lparr>magicCards := magicCards w @ docs\<rparr>)
         \<and> length docs = length data
         \<and> (\<forall>m<length data. \<exists>i<length records.
               scryfallId (records ! i) = Some (card_id (data ! m))
             \<and> (\<forall>j<i. scryfallId (records ! j) \<noteq> Some (card_id (data ! m)))
             \<and> csv_part (docs ! m) = csv_part (records ! i)
             \<and> (\<exists>c\<in>set data. \<exists>im. card_id c = card_id (data ! m) \<and> build_images c = Inr im \<and>
                   docs ! m = merged c im (records ! i))
             \<and> (distinct (map card_id data) \<longrightarrow>
                   (\<exists>im. build_images (data ! m) = Inr im \<and>
                      docs ! m = merged (data ! m) im (records ! i))))"
    by blast
qed

text \<open>Two records with the same id: both ids are sent; a rejected request ends the
  process; an answer with the one object is copied onto the first of the two records.\<close>

theorem lookup_request_and_first_match_witness:
  "map scryfallId duplicate_records = [Some ''sf-bolt'', Some ''sf-bolt'']
   \<and> map manaboxId duplicate_records = [Some ''mb-1'', Some ''mb-3'']
   \<and> processBatch exact_arith (env_of (\<lambda>k. None)) 0 duplicate_records connected_world (Num 0) =
       Exited (exit connected_world)
   \<and> (case processBatch exact_arith (env_of (\<lambda>k. Some [bolt_card])) 0 duplicate_records
              connected_world (Num 0) of
         Returned (n, tp') w' \<Rightarrow>
           n = 2 \<and> map manaboxId (magicCards w') = [Some ''mb-1'']
         \<and> map name (magicCards w') = [Some ''Lightning Bolt'']
       | _ \<Rightarrow> False)"
proof -
  let ?env = "env_of (\<lambda>k. Some [bolt_card])"
  have ids: "map scryfallId duplicate_records = [Some ''sf-bolt'', Some ''sf-bolt'']"
    and mbs: "map manaboxId duplicate_records = [Some ''mb-1'', Some ''mb-3'']"
    by code_simp+
  have len: "length duplicate_records = 2"
    by code_simp
  have id0: "scryfallId (duplicate_records ! 0) = Some ''sf-bolt''"
    and mb0: "manaboxId (duplicate_records ! 0) = Some ''mb-1''"
    by code_simp+
  have cid: "card_id bolt_card = ''sf-bolt''" and cname: "card_name bolt_card = ''Lightning Bolt''"
    by (simp_all add: bolt_card_def)
  note none = lookup_request_and_first_match
    [where env = "env_of (\<lambda>k. None)" and k = 0 and records = duplicate_records
       and ar = exact_arith and w = connected_world and tp = "Num 0" and data = "[]"]
  have rejected: "axios_post (env_of (\<lambda>k. None)) 0 (map scryfallId duplicate_records) = None"
    by (simp add: env_of_def)
  from none [THEN conjunct1, rule_format, OF rejected] have 1:
    "processBatch exact_arith (env_of (\<lambda>k. None)) 0 duplicate_records connected_world (Num 0) =
       Exited (exit connected_world)" .
  note t = lookup_request_and_first_match
    [where env = ?env and k = 0 and records = duplicate_records
       and ar = exact_arith and w = connected_world and tp = "Num 0" and data = "[bolt_card]"]
  have ans: "axios_post ?env 0 (map scryfallId duplicate_records) = Some [bolt_card]"
    by (simp add: env_of_def)
  have known: "\<forall>c\<in>set [bolt_card]. Some (card_id c) \<in> set (map scryfallId duplicate_records) \<and>
                         (\<exists>im. build_images c = Inr im)"
    by (simp add: ids cid) (simp add: build_images_def bolt_card_def)
  have store: "\<forall>docs. insert_ok ?env 0 docs"
    by (simp add: env_of_def)
  from t [THEN conjunct2, THEN conjunct2, rule_format, OF conjI [OF ans conjI [OF known store]]]
  obtain docs tp' where
    ret: "processBatch exact_arith ?env 0 duplicate_records connected_world (Num 0) =
            Returned (length duplicate_records, tp')
              (connected_world\<lparr>magicCards := magicCards connected_world @ docs\<rparr>)"
    and one: "length docs = length [bolt_card]"
    and each: "\<forall>m<length [bolt_card]. \<exists>i<length duplicate_records.
               scryfallId (duplicate_records ! i) = Some (card_id ([bolt_card] ! m))
             \<and> (\<forall>j<i. scryfallId (duplicate_records ! j) \<noteq> Some (card_id ([bolt_card] ! m)))
             \<and> csv_part (docs ! m) = csv_part (duplicate_records ! i)
             \<and> (\<exists>c\<in>set [bolt_card]. \<exists>im. card_id c = card_id ([bolt_card] ! m) \<and>
                   build_images c = Inr im \<and> docs ! m = merged c im (duplicate_records ! i))
             \<and> (distinct (map card_id [bolt_card]) \<longrightarrow>
                   (\<exists>im. build_images ([bolt_card] ! m) = Inr im \<and>
                      docs ! m = merged ([bolt_card] ! m) im (duplicate_records ! i)))"
    by blast
  have "(0::nat) < length [bolt_card]" by simp
  from each [rule_format, OF this] obtain i c im where i: "i < length duplicate_records"
    and first: "\<forall>j<i. scryfallId (duplicate_records ! j) \<noteq> Some (card_id ([bolt_card] ! 0))"
    and c: "c \<in> set [bolt_card]"
    and d0c: "docs ! 0 = merged c im (duplicate_records ! i)"
    by blast
  from c d0c have d0: "docs ! 0 = merged bolt_card im (duplicate_records ! i)" by simp
  from first id0 cid have "i = 0" by (cases i) auto
  with d0 have d0': "docs ! 0 = merged bolt_card im (duplicate_records ! 0)" by simp
  from one obtain d where docs: "docs = [d]"
    by (cases docs) simp_all
  with d0' have d: "d = merged bolt_card im (duplicate_records ! 0)" by simp
  have "manaboxId d = Some ''mb-1''" and "name d = Some ''Lightning Bolt''"
    by (simp_all add: d merged_def mb0 cname)
  with ret docs len have 2:
    "case processBatch exact_arith ?env 0 duplicate_records connected_world (Num 0) of
         Returned (n, tp') w' \<Rightarrow>
           n = 2 \<and> map manaboxId (magicCards w') = [Some ''mb-1'']
         \<and> map name (magicCards w') = [Some ''Lightning Bolt'']
       | _ \<Rightarrow> False"
    by (simp add: connected_world_def)
  from ids mbs 1 2 show ?thesis by blast
qed

text \<open>
  Claim C10. When the request of a batch is answered, \<open>processBatch\<close> hands to
  \<open>insertMany\<close> a list that follows the order of the answer's \<open>data\<close> list, and, when the
  insertion succeeds, appends that list to \<open>magicCards\<close> (when it fails, the process
  exits): the m-th document is the record found for the m-th object and carries its
  identifier. So whenever an object for a later row of the batch precedes, in the answer,
  an object for an earlier row, the record of the later row is stored before the record
  of the earlier row.
\<close>

theorem persisted_in_response_order:
  assumes ans: "axios_post env k (identifiers_of records) = Some data"
    and known: "\<forall>c\<in>set data. Some (card_id c) \<in> set (map scryfallId records) \<and>
                  (\<exists>im. build_images c = Inr im)"
  shows "\<exists>docs tp'.
        (insert_ok env k docs \<longrightarrow>
           processBatch ar env k records w tp =
             Returned (length records, tp') (w\<lparr>magicCards := magicCards w @ docs\<rparr>))
      \<and> (\<not> insert_ok env k docs \<longrightarrow> processBatch ar env k records w tp = Exited (exit w))
      \<and> map scryfallId docs = map (\<lambda>c. Some (card_id c)) data
      \<and> (\<forall>m<length data. \<exists>i<length records.
            find_pos (has_id (data ! m)) records = Some i \<and>
            csv_part (docs ! m) = csv_part (records ! i))
      \<and> (\<forall>m1 m2 i1 i2.
            m1 < m2 \<and> m2 < length data \<and>
            find_pos (has_id (data ! m1)) records = Some i1 \<and>
            find_pos (has_id (data ! m2)) records = Some i2 \<and> i2 < i1 \<longrightarrow>
            csv_part (docs ! m1) = csv_part (records ! i1) \<and>
            csv_part (docs ! m2) = csv_part (records ! i2))"
proof -
  from processBatch_answered [OF ans known, of ar tp w] obtain docs tp' where
    mb: "merge_batch ar records data tp = Inr (docs, tp')"
    and ok: "insert_ok env k docs \<longrightarrow>
           processBatch ar env k records w tp =
             Returned (length records, tp') (w\<lparr>magicCards := magicCards w @ docs\<rparr>)"
    and ko: "\<not> insert_ok env k docs \<longrightarrow> processBatch ar env k records w tp = Exited (exit w)"
    by blast
  have ids: "map scryfallId docs = map (\<lambda>c. Some (card_id c)) data"
    using mb by (rule merge_batch_ids)
  have each: "\<exists>i<length records. find_pos (has_id (data ! m)) records = Some i \<and>
            csv_part (docs ! m) = csv_part (records ! i)" if "m < length data" for m
  proof -
    from merge_batch_nth [OF mb that] obtain i c im where
      i: "find_pos (has_id (data ! m)) records = Some i" and dm: "docs ! m = merged c im (records ! i)"
      by blast
    from find_pos_Some [OF i] have "i < length records" by simp
    with i dm show ?thesis by (simp add: csv_part_merged)
  qed
  have swapped: "csv_part (docs ! m1) = csv_part (records ! i1) \<and>
            csv_part (docs ! m2) = csv_part (records ! i2)"
    if "m1 < m2 \<and> m2 < length data \<and>
            find_pos (has_id (data ! m1)) records = Some i1 \<and>
            find_pos (has_id (data ! m2)) records = Some i2 \<and> i2 < i1" for m1 m2 i1 i2
    using each [of m1] each [of m2] that by auto
  from ok ko ids each swapped show ?thesis by blast
qed

text \<open>An answer that lists the second record first.\<close>

theorem persisted_in_response_order_witness:
  "map scryfallId two_records = [Some ''sf-bolt'', Some ''sf-delver'']
   \<and> (case processBatch exact_arith (env_of (\<lambda>k. Some [delver_card, bolt_card])) 0 two_records
              connected_world (Num 0) of
         Returned (n, tp') w' \<Rightarrow>
           map scryfallId (magicCards w') = [Some ''sf-delver'', Some ''sf-bolt'']
         \<and> csv_part (magicCards w' ! 0) = csv_part (two_records ! 1)
         \<and> csv_part (magicCards w' ! 1) = csv_part (two_records ! 0)
       | _ \<Rightarrow> False)"
proof -
  let ?env = "env_of (\<lambda>k. Some [delver_card, bolt_card])"
  let ?data = "[delver_card, bolt_card]"
  have ids: "map scryfallId two_records = [Some ''sf-bolt'', Some ''sf-delver'']"
    by (rule two_records_ids)
  have cid: "card_id bolt_card = ''sf-bolt''" "card_id delver_card = ''sf-delver''"
    by (simp_all add: bolt_card_def delver_card_def)
  have ans: "axios_post ?env 0 (identifiers_of two_records) = Some ?data"
    by (simp add: env_of_def)
  have img: "\<exists>im. build_images bolt_card = Inr im" "\<exists>im. build_images delver_card = Inr im"
    by (simp_all add: build_images_def bolt_card_def delver_card_def)
  have known: "\<forall>c\<in>set ?data. Some (card_id c) \<in> set (map scryfallId two_records) \<and>
                  (\<exists>im. build_images c = Inr im)"
    using img by (simp add: ids cid)
  have pd: "find_pos (has_id (?data ! 0)) two_records = Some 1"
    and pb: "find_pos (has_id (?data ! 1)) two_records = Some 0"
    by (simp_all add: find_pos_has_id ids cid)
  from persisted_in_response_order [OF ans known, of exact_arith connected_world "Num 0"]
  obtain docs tp' where
    ok: "insert_ok ?env 0 docs \<longrightarrow>
           processBatch exact_arith ?env 0 two_records connected_world (Num 0) =
             Returned (length two_records, tp')
               (connected_world\<lparr>magicCards := magicCards connected_world @ docs\<rparr>)"
    and order: "map scryfallId docs = map (\<lambda>c. Some (card_id c)) ?data"
    and swapped: "\<forall>m1 m2 i1 i2.
            m1 < m2 \<and> m2 < length ?data \<and>
            find_pos (has_id (?data ! m1)) two_records = Some i1 \<and>
            find_pos (has_id (?data ! m2)) two_records = Some i2 \<and> i2 < i1 \<longrightarrow>
            csv_part (docs ! m1) = csv_part (two_records ! i1) \<and>
            csv_part (docs ! m2) = csv_part (two_records ! i2)"
    by blast
  have "insert_ok ?env 0 docs" by (simp add: env_of_def)
  with ok have ret: "processBatch exact_arith ?env 0 two_records connected_world (Num 0) =
             Returned (length two_records, tp')
               (connected_world\<lparr>magicCards := magicCards connected_world @ docs\<rparr>)"
    by blast
  have "(0::nat) < 1 \<and> 1 < length ?data \<and>
            find_pos (has_id (?data ! 0)) two_records = Some 1 \<and>
            find_pos (has_id (?data ! 1)) two_records = Some 0 \<and> (0::nat) < 1"
    using pd pb by simp
  with swapped have "csv_part (docs ! 0) = csv_part (two_records ! 1) \<and>
            csv_part (docs ! 1) = csv_part (two_records ! 0)"
    by blast
  with ret order ids cid show ?thesis
    by (simp add: connected_world_def)
qed

subsection \<open>The records readCsv builds, and where they go\<close>

lemma merge_batch_from:
  assumes mb: "merge_batch ar records data tp = Inr (docs, tp')"
  shows "\<forall>d\<in>set docs. \<exists>r\<in>set records. csv_part d = csv_part r"
proof
  fix d assume "d \<in> set docs"
  then obtain m where m: "m < length docs" and d: "d = docs ! m"
    by (auto simp: in_set_conv_nth)
  from m merge_batch_length [OF mb] have "m < length data" by simp
  from merge_batch_nth [OF mb this] obtain i c im where
    i: "find_pos (has_id (data ! m)) records = Some i" and dm: "docs ! m = merged c im (records ! i)"
    by blast
  from find_pos_Some [OF i] have "records ! i \<in> set records" by simp
  moreover have "csv_part d = csv_part (records ! i)"
    by (simp add: d dm csv_part_merged)
  ultimately show "\<exists>r\<in>set records. csv_part d = csv_part r" by blast
qed

lemma set_slice: "set (slice records i j) \<subseteq> set records"
  unfolding slice_def by (meson set_take_subset set_drop_subset subset_trans)

lemma loop_cards_from:
  "\<forall>d r. r \<in> set records \<longrightarrow> csv_part d = csv_part r \<longrightarrow> Q d \<Longrightarrow>
   \<forall>d\<in>set (magicCards w). Q d \<Longrightarrow>
   \<forall>d\<in>set (magicCards (world_of (processRecords_loop ar env i records w t))). Q d"
proof (induction ar env i records w t rule: processRecords_loop.induct)
  case (1 ar env i records w t)
  show ?case
  proof (cases "i < length records")
    case False
    with "1.prems"(2) show ?thesis by (simp add: loop_stop)
  next
    case True
    let ?batch = "slice records i (i + BATCH_SIZE)"
    from processBatch_cases [of ar env "i div BATCH_SIZE" ?batch w "totalPrice t"]
    show ?thesis
    proof (elim disjE exE conjE)
      assume "processBatch ar env (i div BATCH_SIZE) ?batch w (totalPrice t) = Exited (exit w)"
      from loop_exited [OF True this] "1.prems"(2) show ?thesis by (simp add: exit_facts)
    next
      fix data docs tp'
      assume mb: "merge_batch ar ?batch data (totalPrice t) = Inr (docs, tp')"
        and ret: "processBatch ar env (i div BATCH_SIZE) ?batch w (totalPrice t) =
          Returned (length ?batch, tp') (w\<lparr>magicCards := magicCards w @ docs\<rparr>)"
      have "\<forall>d\<in>set docs. Q d"
      proof
        fix d assume "d \<in> set docs"
        with merge_batch_from [OF mb] obtain r where "r \<in> set ?batch" "csv_part d = csv_part r"
          by blast
        with set_slice [of records i "i + BATCH_SIZE"] "1.prems"(1) show "Q d" by blast
      qed
      with "1.prems"(2) have "\<forall>d\<in>set (magicCards (w\<lparr>magicCards := magicCards w @ docs\<rparr>)). Q d"
        by auto
      from "1.IH" [OF True ret refl "1.prems"(1) this] show ?thesis
        unfolding loop_returned [OF True ret] .
    qed
  qed
qed


lemma first_request_rejected:
  assumes c: "connect_ok env" "delete_collection_ok env" "delete_cards_ok env"
    and ne: "rows \<noteq> []"
    and rej: "axios_post env 0 (map (\<lambda>row. col row 8) (take BATCH_SIZE rows)) = None"
  shows "main ar env rows old_cards old_collection = exit connected_world"
proof -
  let ?records = "readCsv ar rows"
  from ne have lt: "0 < length ?records" by (simp add: readCsv_map)
  have "identifiers_of (slice ?records 0 (0 + BATCH_SIZE)) =
        map (\<lambda>row. col row 8) (take BATCH_SIZE rows)"
    by (simp add: identifiers_of_map slice_def readCsv_map take_map record_of_row_def comp_def)
  with rej have "axios_post env (0 div BATCH_SIZE) (identifiers_of (slice ?records 0 (0 + BATCH_SIZE))) = None"
    by simp
  from processBatch_no_answer [OF this]
  have "processBatch ar env (0 div BATCH_SIZE) (slice ?records 0 (0 + BATCH_SIZE))
          connected_world (totalPrice (zero_totals ar)) = Exited (exit connected_world)" .
  from loop_exited [OF lt this] show ?thesis
    by (simp add: main_connected [OF c])
qed

text \<open>
  Claim C3, as stated, fails: the price column 0.125 gives the price 12.5, which is not
  \<open>round(0.125 \<times> 100)\<close>, neither 12 nor 13. (0.125, 100 and 12.5 are doubles and the
  product is exact, so the source computes 12.5 as well.)
\<close>

theorem price_rounded_counterexample:
  "to_number exact_arith (col cheap_row 9) = Num (1 / 8)
   \<and> price (record_of_row exact_arith cheap_row) = Num (25 / 2)
   \<and> price (record_of_row exact_arith cheap_row) \<noteq> Num (of_int (round ((1 / 8 :: rat) * 100)))
   \<and> price (record_of_row exact_arith cheap_row) \<noteq> Num 12
   \<and> price (record_of_row exact_arith cheap_row) \<noteq> Num 13"
  by code_simp

text \<open>
  Claim C3, amended. For every row, \<open>readCsv\<close> sets \<open>price\<close> to the product of the price
  column, converted to a number, and 100, as the arithmetic computes it, and no step of
  the run rounds or changes it: every document in \<open>magicCards\<close> at the end of a run that
  connected and emptied the store carries, with the identifiers of a row of the file,
  that product for that row as its price. The statement holds for any interpretation of
  the arithmetic, so for doubles the price is the double product.
\<close>

theorem price_is_unrounded_product:
  "map price (readCsv ar rows) =
     map (\<lambda>row. num_mul ar (to_number ar (col row 9)) (num_lit ar 100)) rows
   \<and> (connect_ok env \<and> delete_collection_ok env \<and> delete_cards_ok env \<longrightarrow>
        (\<forall>d\<in>set (magicCards (main ar env rows old_cards old_collection)).
           \<exists>row\<in>set rows. manaboxId d = col row 7 \<and> scryfallId d = col row 8 \<and>
             price d = num_mul ar (to_number ar (col row 9)) (num_lit ar 100)))"
proof (intro conjI impI)
  show "map price (readCsv ar rows) =
     map (\<lambda>row. num_mul ar (to_number ar (col row 9)) (num_lit ar 100)) rows"
    by (simp add: readCsv_map record_of_row_def)
next
  assume ok: "connect_ok env \<and> delete_collection_ok env \<and> delete_cards_ok env"
  let ?Q = "\<lambda>d. \<exists>row\<in>set rows. manaboxId d = col row 7 \<and> scryfallId d = col row 8 \<and>
             price d = num_mul ar (to_number ar (col row 9)) (num_lit ar 100)"
  have new: "\<forall>d r. r \<in> set (readCsv ar rows) \<longrightarrow> csv_part d = csv_part r \<longrightarrow> ?Q d"
  proof (intro allI impI)
    fix d r assume "r \<in> set (readCsv ar rows)" and eq: "csv_part d = csv_part r"
    then obtain row where row: "row \<in> set rows" "r = record_of_row ar row"
      by (auto simp: readCsv_map)
    from eq row(2) have "manaboxId d = col row 7 \<and> scryfallId d = col row 8 \<and>
             price d = num_mul ar (to_number ar (col row 9)) (num_lit ar 100)"
      by (simp add: csv_part_def record_of_row_def)
    with row(1) show "?Q d" by blast
  qed
  have start: "\<forall>d\<in>set (magicCards (connected_world :: 'a world)). ?Q d"
    by (simp add: connected_world_def)
  from loop_cards_from [where Q = ?Q, OF new start] ok
  show "\<forall>d\<in>set (magicCards (main ar env rows old_cards old_collection)). ?Q d"
    by (simp add: main_cards)
qed

text \<open>The prices 0.5 and 0.125 give 50 and 12.5; the documents of a run on two rows
  carry the products of their rows, 125 and 50.\<close>

theorem price_is_unrounded_product_witness:
  "map price (readCsv exact_arith [bolt_row, cheap_row]) = [Num 50, Num (25 / 2)]
   \<and> map price (magicCards (two_rows_run [delver_card, bolt_card])) = [Num 125, Num 50]
   \<and> (price (magicCards (two_rows_run [delver_card, bolt_card]) ! 0) = Num 50
       \<or> price (magicCards (two_rows_run [delver_card, bolt_card]) ! 0) = Num 125)"
proof -
  note t = price_is_unrounded_product
    [where ar = exact_arith and rows = "[bolt_row, cheap_row]"
       and env = "env_of (\<lambda>k. Some [delver_card, bolt_card])" and old_cards = "[]" and old_collection = "[]"]
  note u = price_is_unrounded_product
    [where ar = exact_arith and rows = "[bolt_row, delver_row]"
       and env = "env_of (\<lambda>k. Some [delver_card, bolt_card])" and old_cards = "[]" and old_collection = "[]"]
  have products: "num_mul exact_arith (to_number exact_arith (col bolt_row 9)) (num_lit exact_arith 100) = Num 50"
    "num_mul exact_arith (to_number exact_arith (col cheap_row 9)) (num_lit exact_arith 100) = Num (25 / 2)"
    "num_mul exact_arith (to_number exact_arith (col delver_row 9)) (num_lit exact_arith 100) = Num 125"
    by code_simp+
  have 1: "map price (readCsv exact_arith [bolt_row, cheap_row]) = [Num 50, Num (25 / 2)]"
    unfolding t [THEN conjunct1] by (simp only: list.map products)
  have stored: "map price (magicCards (two_rows_run [delver_card, bolt_card])) = [Num 125, Num 50]"
    by code_simp
  have "length (magicCards (two_rows_run [delver_card, bolt_card])) = 2"
    by code_simp
  then have mem: "magicCards (two_rows_run [delver_card, bolt_card]) ! 0
      \<in> set (magicCards (two_rows_run [delver_card, bolt_card]))"
    by simp
  have ok: "connect_ok (env_of (\<lambda>k. Some [delver_card, bolt_card])) \<and>
      delete_collection_ok (env_of (\<lambda>k. Some [delver_card, bolt_card])) \<and>
      delete_cards_ok (env_of (\<lambda>k. Some [delver_card, bolt_card]))"
    by (simp add: env_of_ok)
  from u [THEN conjunct2, rule_format, OF ok mem [unfolded two_rows_run_def]]
  obtain row where row: "row \<in> set [bolt_row, delver_row]"
    and p: "price (magicCards (two_rows_run [delver_card, bolt_card]) ! 0) =
      num_mul exact_arith (to_number exact_arith (col row 9)) (num_lit exact_arith 100)"
    unfolding two_rows_run_def by blast
  from row have "row = bolt_row \<or> row = delver_row" by simp
  then have 3: "price (magicCards (two_rows_run [delver_card, bolt_card]) ! 0) = Num 50
       \<or> price (magicCards (two_rows_run [delver_card, bolt_card]) ! 0) = Num 125"
  proof
    assume "row = bolt_row"
    with p products(1) show ?thesis by simp
  next
    assume "row = delver_row"
    with p products(3) show ?thesis by simp
  qed
  from 1 stored 3 show ?thesis by blast
qed

text \<open>
  Claim C4, as stated, fails: for a row whose quantity is \<open>lots\<close> and whose price is
  \<open>cheap\<close>, \<open>readCsv\<close> returns a record (the quantity as it is, the price \<open>NaN\<close>); its
  identifier is part of the lookup request, and the record is merged and handed to
  \<open>saveCards\<close>.
\<close>

theorem malformed_row_counterexample:
  "col bad_row 6 = Some ''lots'' \<and> to_number exact_arith (col bad_row 6) = NaN
   \<and> to_number exact_arith (col bad_row 9) = NaN
   \<and> map quantity (readCsv exact_arith [bad_row]) = [Some ''lots'']
   \<and> map price (readCsv exact_arith [bad_row]) = [NaN]
   \<and> identifiers_of (readCsv exact_arith [bad_row]) = [Some ''sf-bolt'']
   \<and> (case merge_batch exact_arith (readCsv exact_arith [bad_row]) [bolt_card] (Num 0) of
         Inl e \<Rightarrow> False
       | Inr (docs, tp') \<Rightarrow> map quantity docs = [Some ''lots''] \<and> map price docs = [NaN]
            \<and> map name docs = [Some ''Lightning Bolt''])"
  by code_simp

text \<open>
  Claim C4, amended. \<open>readCsv\<close> checks nothing and has no error: every row gives one
  record, in order, with the quantity column copied as it is and the price the product of
  the converted price column and 100, as the arithmetic computes it. Whatever the numeric
  columns hold, the identifier of every row is part of the request of its batch: the
  request of the k-th batch lists the identifier column of the rows from position \<open>75 k\<close>
  on, and a run that has connected and whose first such request axios rejects ends in
  \<open>exit\<close> with nothing stored.
\<close>

theorem readCsv_never_fails:
  "length (readCsv ar rows) = length rows
   \<and> map quantity (readCsv ar rows) = map (\<lambda>row. col row 6) rows
   \<and> map price (readCsv ar rows) =
       map (\<lambda>row. num_mul ar (to_number ar (col row 9)) (num_lit ar 100)) rows
   \<and> (\<forall>k<length (batches (readCsv ar rows)).
         identifiers_of (batches (readCsv ar rows) ! k) =
         map (\<lambda>row. col row 8) (take BATCH_SIZE (drop (k * BATCH_SIZE) rows)))
   \<and> (connect_ok env \<and> delete_collection_ok env \<and> delete_cards_ok env \<and> rows \<noteq> [] \<and>
       axios_post env 0 (map (\<lambda>row. col row 8) (take BATCH_SIZE rows)) = None \<longrightarrow>
         main ar env rows old_cards old_collection = exit connected_world)"
proof (intro conjI allI impI)
  fix k assume "k < length (batches (readCsv ar rows))"
  from batch_index(2) [OF this]
  show "identifiers_of (batches (readCsv ar rows) ! k) =
         map (\<lambda>row. col row 8) (take BATCH_SIZE (drop (k * BATCH_SIZE) rows))"
    by (simp add: identifiers_of_map slice_def readCsv_map take_map drop_map record_of_row_def comp_def)
next
  assume "connect_ok env \<and> delete_collection_ok env \<and> delete_cards_ok env \<and> rows \<noteq> [] \<and>
       axios_post env 0 (map (\<lambda>row. col row 8) (take BATCH_SIZE rows)) = None"
  then show "main ar env rows old_cards old_collection = exit connected_world"
    by (simp add: first_request_rejected)
qed (simp_all add: readCsv_map record_of_row_def comp_def)

text \<open>A well-formed row followed by the malformed one.\<close>

theorem readCsv_never_fails_witness:
  "length (readCsv exact_arith [bolt_row, bad_row]) = 2
   \<and> map quantity (readCsv exact_arith [bolt_row, bad_row]) = [Some ''2'', Some ''lots'']
   \<and> map price (readCsv exact_arith [bolt_row, bad_row]) = [Num 50, NaN]
   \<and> identifiers_of (batches (readCsv exact_arith [bolt_row, bad_row]) ! 0) =
       [Some ''sf-bolt'', Some ''sf-bolt'']
   \<and> main exact_arith (env_of (\<lambda>k. None)) [bolt_row, bad_row] [] [] = exit connected_world"
proof -
  note t = readCsv_never_fails
    [where ar = exact_arith and rows = "[bolt_row, bad_row]" and env = "env_of (\<lambda>k. None)"
       and old_cards = "[]" and old_collection = "[]"]
  have lt: "0 < length (batches (readCsv exact_arith [bolt_row, bad_row]))"
    by code_simp
  have rej: "axios_post (env_of (\<lambda>k. None)) 0
      (map (\<lambda>row. col row 8) (take BATCH_SIZE [bolt_row, bad_row])) = None"
    by (simp add: env_of_def)
  have cols: "map (\<lambda>row. col row 6) [bolt_row, bad_row] = [Some ''2'', Some ''lots'']"
    "map (\<lambda>row. col row 8) (take BATCH_SIZE (drop (0 * BATCH_SIZE) [bolt_row, bad_row])) =
       [Some ''sf-bolt'', Some ''sf-bolt'']"
    "map (\<lambda>row. num_mul exact_arith (to_number exact_arith (col row 9)) (num_lit exact_arith 100))
       [bolt_row, bad_row] = [Num 50, NaN]"
    by code_simp+
  from t have 1: "length (readCsv exact_arith [bolt_row, bad_row]) = length [bolt_row, bad_row]"
    and 2: "map quantity (readCsv exact_arith [bolt_row, bad_row]) = map (\<lambda>row. col row 6) [bolt_row, bad_row]"
    and 3: "map price (readCsv exact_arith [bolt_row, bad_row]) =
       map (\<lambda>row. num_mul exact_arith (to_number exact_arith (col row 9)) (num_lit exact_arith 100))
         [bolt_row, bad_row]"
    by (rule conjunct1, rule conjunct2 [THEN conjunct1], rule conjunct2 [THEN conjunct2, THEN conjunct1])
  from t [THEN conjunct2, THEN conjunct2, THEN conjunct2, THEN conjunct1, rule_format, OF lt]
  have 4: "identifiers_of (batches (readCsv exact_arith [bolt_row, bad_row]) ! 0) =
         map (\<lambda>row. col row 8) (take BATCH_SIZE (drop (0 * BATCH_SIZE) [bolt_row, bad_row]))" .
  have hyp: "connect_ok (env_of (\<lambda>k. None)) \<and> delete_collection_ok (env_of (\<lambda>k. None)) \<and>
       delete_cards_ok (env_of (\<lambda>k. None)) \<and> [bolt_row, bad_row] \<noteq> [] \<and>
       axios_post (env_of (\<lambda>k. None)) 0 (map (\<lambda>row. col row 8) (take BATCH_SIZE [bolt_row, bad_row])) = None"
    using rej by (simp add: env_of_ok)
  from t [THEN conjunct2, THEN conjunct2, THEN conjunct2, THEN conjunct2, rule_format, OF hyp]
  have 5: "main exact_arith (env_of (\<lambda>k. None)) [bolt_row, bad_row] [] [] = exit connected_world" .
  from 1 2 3 4 5 cols show ?thesis by simp
qed

end
